(* ===== verification/Prelude.thy ===== *)
theory Prelude
  imports Main "HOL-Library.Word"
begin

text \<open>
  Vocabulary shared by every component: identifiers and instants, Go's error values
  (\<^theory_text>\<open>errors.New\<close>, \<^theory_text>\<open>fmt.Errorf\<close> with a wrapped cause, \<^theory_text>\<open>errors.Is\<close>, \<^theory_text>\<open>errors.As\<close>),
  the result of a fallible Go function, and the list facts the component theories use.

  A UUID is its 16 bytes (\<open>128 word\<close>).  An instant is a number of microseconds, the
  resolution of the TIMESTAMPTZ columns.  A Go string is the list of its bytes.
\<close>

named_theorems go_err "how errors.Is, errors.As and Error() read an error value"
named_theorems sql_defs "definitions of the SQL statements"
named_theorems frame "fields an operation leaves alone"

section \<open>Identifiers, instants, errors\<close>

type_synonym uuid = "128 word"
type_synonym instant = int

text \<open>
  \<open>ErrNoRows\<close> is pgx's sentinel, \<open>PgError code text\<close> an error the server reports with
  its SQLSTATE, \<open>ErrorString\<close> what \<^theory_text>\<open>errors.New\<close> or a driver returns, and
  \<open>Wrapped prefix e\<close> the result of \<^theory_text>\<open>fmt.Errorf(prefix + "%w", e)\<close>.
\<close>

datatype go_error =
    ErrNoRows
  | PgError string string
  | ErrorString string
  | Wrapped string go_error

type_synonym 'a result = "go_error + 'a"

fun Error_text :: "go_error \<Rightarrow> string" where
  "Error_text ErrNoRows = ''no rows in result set''"
| "Error_text (PgError code txt) = txt"
| "Error_text (ErrorString txt) = txt"
| "Error_text (Wrapped prefix e) = prefix @ Error_text e"

text \<open>\<open>errors.Is(err, pgx.ErrNoRows)\<close> walks the chain of causes.\<close>

fun is_no_rows :: "go_error \<Rightarrow> bool" where
  "is_no_rows ErrNoRows = True"
| "is_no_rows (PgError code txt) = False"
| "is_no_rows (ErrorString txt) = False"
| "is_no_rows (Wrapped prefix e) = is_no_rows e"

text \<open>\<open>errors.As(err, &pgErr)\<close> finds the first server error of the chain; the code reads
  its SQLSTATE only.\<close>

fun pg_code :: "go_error \<Rightarrow> string option" where
  "pg_code ErrNoRows = None"
| "pg_code (PgError code txt) = Some code"
| "pg_code (ErrorString txt) = None"
| "pg_code (Wrapped prefix e) = pg_code e"

declare Error_text.simps [go_err] is_no_rows.simps [go_err] pg_code.simps [go_err]

section \<open>Lists\<close>

lemma map_map_frame [frame]: "(\<And>x. f (g x) = f x) \<Longrightarrow> map f (map g xs) = map f xs"
  by (induction xs) simp_all

lemma find_key_Some:
  assumes "distinct (map f xs)" and "x \<in> set xs"
  shows "find (\<lambda>y. f y = f x) xs = Some x"
  using assms by (induction xs) (auto simp: image_iff)

lemma find_None_key: "find (\<lambda>y. f y = k) xs = None \<longleftrightarrow> k \<notin> f ` set xs"
  by (auto simp: find_None_iff)

lemma find_append_one:
  "find P (xs @ [x]) = (case find P xs of Some y \<Rightarrow> Some y | None \<Rightarrow> if P x then Some x else None)"
  by (induction xs) auto

lemma find_SomeD: "find P xs = Some x \<Longrightarrow> x \<in> set xs \<and> P x"
  by (induction xs) (auto split: if_splits)

lemma find_not_NoneD: "x \<in> set xs \<Longrightarrow> P x \<Longrightarrow> \<exists>y. find P xs = Some y"
  by (induction xs) auto

lemma distinct_key_eq:
  "distinct (map f xs) \<Longrightarrow> x \<in> set xs \<Longrightarrow> y \<in> set xs \<Longrightarrow> f x = f y \<Longrightarrow> x = y"
  by (auto simp: distinct_map inj_on_def)

lemma filter_eq_single: "distinct xs \<Longrightarrow> x \<in> set xs \<Longrightarrow> filter (\<lambda>y. y = x) xs = [x]"
  by (induction xs) (auto simp: filter_empty_conv)

lemma filter_key_unique:
  assumes d: "distinct (map f xs)" and x: "x \<in> set xs" and P: "P x"
    and key: "\<And>y. y \<in> set xs \<Longrightarrow> P y \<Longrightarrow> f y = f x"
  shows "filter P xs = [x]"
proof -
  have "filter P xs = filter (\<lambda>y. y = x) xs"
    using P distinct_key_eq [OF d _ x] key by (intro filter_cong) auto
  with d x show ?thesis by (simp add: filter_eq_single distinct_map)
qed

end
