(* ===== verification/Models.thy ===== *)
theory Models
  imports Prelude "HOL-Library.AList"
begin

text \<open>
  The domain types of \<^verbatim>\<open>internal/models/task.go\<close>: the status constants, the \<open>Task\<close> struct,
  the \<open>CreateTaskRequest\<close>, and what \<^verbatim>\<open>encoding/json\<close> makes of a \<open>Task\<close> through its struct tags.
  Go's \<open>TaskStatus\<close> is a string type; the values the database admits are the enum of
  \<^verbatim>\<open>migrations/001_create_tasks.sql\<close>, modelled in the theory \<^verbatim>\<open>Tasks_Table\<close>.
\<close>

section \<open>Status constants\<close>

type_synonym TaskStatus = string

definition StatusPending :: TaskStatus where "StatusPending = ''PENDING''"
definition StatusInProgress :: TaskStatus where "StatusInProgress = ''IN_PROGRESS''"
definition StatusSuccess :: TaskStatus where "StatusSuccess = ''SUCCESS''"
definition StatusFailed :: TaskStatus where "StatusFailed = ''FAILED''"
definition StatusRetry :: TaskStatus where "StatusRetry = ''RETRY''"
definition StatusDeadLetter :: TaskStatus where "StatusDeadLetter = ''DEAD_LETTER''"

lemmas status_defs = StatusPending_def StatusInProgress_def StatusSuccess_def
  StatusFailed_def StatusRetry_def StatusDeadLetter_def

section \<open>Task and CreateTaskRequest\<close>

text \<open>A nil pointer (or nil slice) is \<open>None\<close>.\<close>

record Task =
  ID :: uuid
  IdempotencyKey :: uuid
  ServiceName :: string
  UserEmail :: string
  Status :: TaskStatus
  Attempts :: int
  MaxAttempts :: int
  Payload :: "string option"
  ErrorMessage :: "string option"
  EvidencePath :: "string option"
  ScheduledFor :: "instant option"
  CreatedAt :: instant
  UpdatedAt :: instant
  LockedAt :: "instant option"
  LockedBy :: "string option"

text \<open>
  JSON values.  \<open>JInt\<close> and \<open>JTime\<close> are the numbers and the RFC 3339 instants the
  encoder writes; \<open>JNum\<close> is a number of a decoded payload.
\<close>

datatype json =
    JNull
  | JBool bool
  | JNum string
  | JInt int
  | JStr string
  | JTime instant
  | JArr "json list"
  | JObj "(string \<times> json) list"

text \<open>The payload is Go's \<open>map[string]interface{}\<close>; a nil map is the empty list.\<close>

record CreateTaskRequest =
  req_IdempotencyKey :: string
  req_ServiceName :: string
  req_UserEmail :: string
  req_Payload :: "(string \<times> json) list"
  req_ScheduledFor :: "instant option"

end
