(* ===== verification/Tasks_Table.thy ===== *)
theory Tasks_Table
  imports Models
begin

text \<open>
  The \<^verbatim>\<open>tasks\<close> table of \<^verbatim>\<open>migrations/\<close> and the SQL statements of
  \<^verbatim>\<open>internal/repository/task_repo.go\<close>, each as a function of the transaction time (\<open>NOW()\<close>)
  and the stored rows.  A statement yields its result (or the server's error) and the
  rows after it; a failing statement leaves the rows as they were.

  The columns, defaults, VARCHAR widths, the INT range of \<open>attempts\<close>, the two unique
  constraints and the \<open>updated_at\<close> trigger are those of the migrations.
\<close>

section \<open>The enum task_status\<close>

datatype task_status = PENDING | IN_PROGRESS | SUCCESS | FAILED | RETRY | DEAD_LETTER

fun enum_out :: "task_status \<Rightarrow> string" where
  "enum_out PENDING = ''PENDING''"
| "enum_out IN_PROGRESS = ''IN_PROGRESS''"
| "enum_out SUCCESS = ''SUCCESS''"
| "enum_out FAILED = ''FAILED''"
| "enum_out RETRY = ''RETRY''"
| "enum_out DEAD_LETTER = ''DEAD_LETTER''"

definition enum_in :: "string \<Rightarrow> task_status option" where
  "enum_in s =
     (if s = ''PENDING'' then Some PENDING
      else if s = ''IN_PROGRESS'' then Some IN_PROGRESS
      else if s = ''SUCCESS'' then Some SUCCESS
      else if s = ''FAILED'' then Some FAILED
      else if s = ''RETRY'' then Some RETRY
      else if s = ''DEAD_LETTER'' then Some DEAD_LETTER
      else None)"

instantiation task_status :: enum
begin

definition enum_task_status :: "task_status list" where
  "enum_task_status = [PENDING, IN_PROGRESS, SUCCESS, FAILED, RETRY, DEAD_LETTER]"

definition enum_all_task_status :: "(task_status \<Rightarrow> bool) \<Rightarrow> bool" where
  "enum_all_task_status P \<longleftrightarrow>
     P PENDING \<and> P IN_PROGRESS \<and> P SUCCESS \<and> P FAILED \<and> P RETRY \<and> P DEAD_LETTER"

definition enum_ex_task_status :: "(task_status \<Rightarrow> bool) \<Rightarrow> bool" where
  "enum_ex_task_status P \<longleftrightarrow>
     P PENDING \<or> P IN_PROGRESS \<or> P SUCCESS \<or> P FAILED \<or> P RETRY \<or> P DEAD_LETTER"

lemma UNIV_task_status: "UNIV = {PENDING, IN_PROGRESS, SUCCESS, FAILED, RETRY, DEAD_LETTER}"
  by (auto intro: task_status.exhaust)

instance
  by standard
    (simp_all only: enum_task_status_def enum_all_task_status_def enum_ex_task_status_def
      UNIV_task_status, auto)

end

lemma enum_in_out [simp]: "enum_in (enum_out st) = Some st"
  by (cases st) (simp_all add: enum_in_def)

lemma enum_in_SomeD: "enum_in s = Some st \<Longrightarrow> s = enum_out st"
  by (auto simp: enum_in_def split: if_splits)

section \<open>Rows\<close>

record task_row =
  c_id :: uuid
  c_key :: uuid
  c_service :: string
  c_email :: string
  c_status :: task_status
  c_attempts :: int
  c_max :: int
  c_payload :: "string option"
  c_error :: "string option"
  c_evidence :: "string option"
  c_created_at :: instant
  c_updated_at :: instant
  c_locked_at :: "instant option"
  c_locked_by :: "string option"
  c_scheduled_for :: "instant option"

type_synonym table = "task_row list"

text \<open>Scanning a returned row into the Go struct.\<close>

definition scan_task :: "task_row \<Rightarrow> Task" where
  "scan_task r =
     \<lparr>ID = c_id r, IdempotencyKey = c_key r, ServiceName = c_service r, UserEmail = c_email r,
      Status = enum_out (c_status r), Attempts = c_attempts r, MaxAttempts = c_max r,
      Payload = c_payload r, ErrorMessage = c_error r, EvidencePath = c_evidence r,
      ScheduledFor = c_scheduled_for r, CreatedAt = c_created_at r, UpdatedAt = c_updated_at r,
      LockedAt = c_locked_at r, LockedBy = c_locked_by r\<rparr>"

section \<open>Column values\<close>

text \<open>
  TEXT and VARCHAR values are UTF-8 and hold no NUL byte.  VARCHAR(255) counts
  characters; a longer value is an error unless the excess is blanks only, which are cut.
\<close>

definition is_cont :: "char \<Rightarrow> bool" where
  "is_cont c \<longleftrightarrow> 128 \<le> (of_char c :: nat) \<and> (of_char c :: nat) < 192"

fun split_runes :: "nat \<Rightarrow> string \<Rightarrow> string \<times> string" where
  "split_runes n [] = ([], [])"
| "split_runes n (c # cs) =
     (if is_cont c then (let (a, b) = split_runes n cs in (c # a, b))
      else case n of 0 \<Rightarrow> ([], c # cs)
           | Suc m \<Rightarrow> (let (a, b) = split_runes m cs in (c # a, b)))"

definition pg_text :: "string \<Rightarrow> string result" where
  "pg_text s =
     (if CHR 0x00 \<in> set s
      then Inl (PgError ''22021'' ''invalid byte sequence for encoding'') else Inr s)"

definition pg_varchar255 :: "string \<Rightarrow> string result" where
  "pg_varchar255 s =
     (case pg_text s of Inl e \<Rightarrow> Inl e
      | Inr s' \<Rightarrow> (let (a, b) = split_runes 255 s' in
          if list_all (\<lambda>c. c = CHR '' '') b then Inr a
          else Inl (PgError ''22001'' ''value too long for type character varying(255)'')))"

text \<open>The number of characters (not bytes) of a UTF-8 string.\<close>

definition runes :: "string \<Rightarrow> nat" where
  "runes s = length (filter (\<lambda>c. \<not> is_cont c) s)"

text \<open>What a VARCHAR(255) column can hold.\<close>

definition varchar_ok :: "string \<Rightarrow> bool" where
  "varchar_ok s \<longleftrightarrow> runes s \<le> 255 \<and> CHR 0x00 \<notin> set s"

lemma split_runes_bound: "runes (fst (split_runes n s)) \<le> n"
  by (induction n s rule: split_runes.induct) (auto simp: runes_def Let_def split: prod.split nat.split)

lemma pg_varchar255_ok: "pg_varchar255 s = Inr v \<Longrightarrow> varchar_ok v"
proof -
  assume a: "pg_varchar255 s = Inr v"
  have sub: "set (fst (split_runes n s)) \<subseteq> set s" for n
    by (induction n s rule: split_runes.induct) (auto simp: Let_def split: prod.split nat.split)
  from a have v: "v = fst (split_runes 255 s)" "CHR 0x00 \<notin> set s"
    by (auto simp: pg_varchar255_def pg_text_def Let_def split: prod.splits if_splits)
  with split_runes_bound [of 255 s] sub [of 255] show ?thesis by (auto simp: varchar_ok_def)
qed

fun pg_opt :: "('a \<Rightarrow> 'b result) \<Rightarrow> 'a option \<Rightarrow> 'b option result" where
  "pg_opt f None = Inr None"
| "pg_opt f (Some a) = (case f a of Inl e \<Rightarrow> Inl e | Inr b \<Rightarrow> Inr (Some b))"

definition pg_jsonb :: "(string \<Rightarrow> string option) \<Rightarrow> string \<Rightarrow> string result" where
  "pg_jsonb jsonb_in b =
     (case jsonb_in b of None \<Rightarrow> Inl (PgError ''22P02'' ''invalid input syntax for type json'')
      | Some v \<Rightarrow> Inr v)"

definition pg_status :: "string \<Rightarrow> task_status result" where
  "pg_status s =
     (case enum_in s of None \<Rightarrow> Inl (PgError ''22P02'' ''invalid input value for enum task_status'')
      | Some st \<Rightarrow> Inr st)"

definition pg_interval :: "(string \<Rightarrow> int option) \<Rightarrow> string \<Rightarrow> int result" where
  "pg_interval interval_in s =
     (case interval_in s of None \<Rightarrow> Inl (PgError ''22007'' ''invalid input syntax for type interval'')
      | Some d \<Rightarrow> Inr d)"

definition int4_max :: int where "int4_max = 2147483647"

section \<open>INSERT\<close>

text \<open>The row an INSERT stores: the given columns and the defaults of the schema.\<close>

definition default_row ::
  "instant \<Rightarrow> uuid \<Rightarrow> uuid \<Rightarrow> string \<Rightarrow> string \<Rightarrow> string option \<Rightarrow> instant option \<Rightarrow> task_row" where
  "default_row now newid key svc email payload sched =
     \<lparr>c_id = newid, c_key = key, c_service = svc, c_email = email, c_status = PENDING,
      c_attempts = 0, c_max = 3, c_payload = payload, c_error = None, c_evidence = None,
      c_created_at = now, c_updated_at = now, c_locked_at = None, c_locked_by = None,
      c_scheduled_for = sched\<rparr>"

definition insert_row ::
  "(string \<Rightarrow> string option) \<Rightarrow> instant \<Rightarrow> uuid \<Rightarrow> uuid \<Rightarrow> string \<Rightarrow> string \<Rightarrow>
   string option \<Rightarrow> instant option \<Rightarrow> task_row result" where
  "insert_row jsonb_in now newid key svc email payload sched =
     (case pg_varchar255 svc of Inl e \<Rightarrow> Inl e | Inr svc' \<Rightarrow>
      (case pg_varchar255 email of Inl e \<Rightarrow> Inl e | Inr email' \<Rightarrow>
       (case pg_opt (pg_jsonb jsonb_in) payload of Inl e \<Rightarrow> Inl e | Inr p \<Rightarrow>
        Inr (default_row now newid key svc' email' p sched))))"

text \<open>
  \<^verbatim>\<open>INSERT ... ON CONFLICT (idempotency_key) DO NOTHING RETURNING ...\<close>: no row comes back
  when the key is taken; a taken primary key is a unique violation (23505), which the
  conflict clause does not cover.
\<close>

definition sql_insert ::
  "(string \<Rightarrow> string option) \<Rightarrow> uuid \<Rightarrow> uuid \<Rightarrow> string \<Rightarrow> string \<Rightarrow> string option \<Rightarrow>
   instant option \<Rightarrow> instant \<Rightarrow> table \<Rightarrow> task_row option result \<times> table" where
  "sql_insert jsonb_in newid key svc email payload sched now rows =
     (case insert_row jsonb_in now newid key svc email payload sched of
        Inl e \<Rightarrow> (Inl e, rows)
      | Inr r \<Rightarrow>
          if key \<in> set (map c_key rows) then (Inr None, rows)
          else if newid \<in> set (map c_id rows)
          then (Inl (PgError ''23505'' ''duplicate key value violates unique constraint''), rows)
          else (Inr (Some r), rows @ [r]))"

section \<open>SELECT\<close>

definition sql_by_id :: "uuid \<Rightarrow> table \<Rightarrow> task_row option" where
  "sql_by_id i rows = find (\<lambda>r. c_id r = i) rows"

definition sql_by_key :: "uuid \<Rightarrow> table \<Rightarrow> task_row option" where
  "sql_by_key k rows = find (\<lambda>r. c_key r = k) rows"

text \<open>A comparison with NULL is not true.\<close>

definition is_stale :: "int \<Rightarrow> instant \<Rightarrow> task_row \<Rightarrow> bool" where
  "is_stale threshold now r \<longleftrightarrow>
     c_status r = IN_PROGRESS \<and>
     (case c_locked_at r of None \<Rightarrow> False | Some t \<Rightarrow> t < now - threshold)"

definition is_due :: "instant \<Rightarrow> task_row \<Rightarrow> bool" where
  "is_due now r \<longleftrightarrow>
     c_status r = PENDING \<and> (case c_scheduled_for r of None \<Rightarrow> False | Some t \<Rightarrow> t \<le> now)"

definition sql_stale :: "int \<Rightarrow> instant \<Rightarrow> table \<Rightarrow> table" where
  "sql_stale threshold now rows = filter (is_stale threshold now) rows"

definition sql_due :: "instant \<Rightarrow> table \<Rightarrow> table" where
  "sql_due now rows = filter (is_due now) rows"

section \<open>UPDATE\<close>

text \<open>The BEFORE UPDATE trigger \<^verbatim>\<open>tasks_updated_at\<close>.\<close>

definition touch :: "instant \<Rightarrow> task_row \<Rightarrow> task_row" where
  "touch now r = r\<lparr>c_updated_at := now\<rparr>"

text \<open>
  \<open>sql_update now P ok g\<close> rewrites the rows that satisfy the WHERE clause \<open>P\<close> and returns
  them; if an expression of the SET clause is out of range for one of them (\<open>ok\<close> fails),
  the statement fails as a whole.
\<close>

definition sql_update ::
  "instant \<Rightarrow> (task_row \<Rightarrow> bool) \<Rightarrow> (task_row \<Rightarrow> bool) \<Rightarrow> (task_row \<Rightarrow> task_row) \<Rightarrow>
   table \<Rightarrow> table result \<times> table" where
  "sql_update now P ok g rows =
     (if list_all (\<lambda>r. P r \<longrightarrow> ok r) rows
      then (Inr (map (\<lambda>r. touch now (g r)) (filter P rows)),
            map (\<lambda>r. if P r then touch now (g r) else r) rows)
      else (Inl (PgError ''22003'' ''integer out of range''), rows))"

definition claimable :: "instant \<Rightarrow> uuid \<Rightarrow> task_row \<Rightarrow> bool" where
  "claimable now i r \<longleftrightarrow>
     c_id r = i \<and> c_status r = PENDING \<and>
     (case c_scheduled_for r of None \<Rightarrow> True | Some t \<Rightarrow> t \<le> now)"

definition claim_row :: "instant \<Rightarrow> string \<Rightarrow> task_row \<Rightarrow> task_row" where
  "claim_row now w r =
     r\<lparr>c_status := IN_PROGRESS, c_locked_at := Some now, c_locked_by := Some w,
       c_attempts := c_attempts r + 1\<rparr>"

definition attempts_room :: "task_row \<Rightarrow> bool" where
  "attempts_room r \<longleftrightarrow> c_attempts r < int4_max"

definition sql_claim ::
  "uuid \<Rightarrow> string \<Rightarrow> instant \<Rightarrow> table \<Rightarrow> task_row option result \<times> table" where
  "sql_claim i worker now rows =
     (case pg_varchar255 worker of Inl e \<Rightarrow> (Inl e, rows)
      | Inr w \<Rightarrow>
          (case sql_update now (claimable now i) attempts_room (claim_row now w) rows of
             (Inl e, rows') \<Rightarrow> (Inl e, rows')
           | (Inr rs, rows') \<Rightarrow> (Inr (case rs of [] \<Rightarrow> None | r # _ \<Rightarrow> Some r), rows')))"

definition set_status_row :: "task_status \<Rightarrow> string option \<Rightarrow> task_row \<Rightarrow> task_row" where
  "set_status_row st err r =
     r\<lparr>c_status := st, c_error := err, c_locked_at := None, c_locked_by := None\<rparr>"

definition sql_set_status ::
  "uuid \<Rightarrow> string \<Rightarrow> string option \<Rightarrow> instant \<Rightarrow> table \<Rightarrow> nat result \<times> table" where
  "sql_set_status i status err now rows =
     (case pg_status status of Inl e \<Rightarrow> (Inl e, rows) | Inr st \<Rightarrow>
      (case pg_opt pg_text err of Inl e \<Rightarrow> (Inl e, rows) | Inr err' \<Rightarrow>
       (case sql_update now (\<lambda>r. c_id r = i) (\<lambda>_. True) (set_status_row st err') rows of
          (Inl e, rows') \<Rightarrow> (Inl e, rows')
        | (Inr rs, rows') \<Rightarrow> (Inr (length rs), rows'))))"

definition release_row :: "task_row \<Rightarrow> task_row" where
  "release_row r = r\<lparr>c_status := PENDING, c_locked_at := None, c_locked_by := None\<rparr>"

definition sql_requeue ::
  "uuid \<Rightarrow> int \<Rightarrow> instant \<Rightarrow> table \<Rightarrow> nat result \<times> table" where
  "sql_requeue i threshold now rows =
     (case sql_update now (\<lambda>r. c_id r = i \<and> is_stale threshold now r) (\<lambda>_. True) release_row rows of
        (Inl e, rows') \<Rightarrow> (Inl e, rows')
      | (Inr rs, rows') \<Rightarrow> (Inr (length rs), rows'))"

declare sql_insert_def [sql_defs] sql_claim_def [sql_defs] sql_set_status_def [sql_defs]
  sql_requeue_def [sql_defs] sql_update_def [sql_defs]

end
