(* ===== verification/Worker_Db.thy ===== *)
theory Worker_Db
  imports Tasks_Table
begin

text \<open>
  The statements the Node worker sends to the same table (\<^verbatim>\<open>worker/src/db.js\<close>).  They are
  part of the model because the Go repository's promises only mean something against the
  other writer of the rows it serves: the worker claims, heartbeats, and writes results
  fenced on \<open>locked_by\<close>.
\<close>

definition worker_claimable :: "uuid \<Rightarrow> task_row \<Rightarrow> bool" where
  "worker_claimable i r \<longleftrightarrow> c_id r = i \<and> (c_status r = PENDING \<or> c_status r = RETRY)"

definition worker_claimTask ::
  "uuid \<Rightarrow> string \<Rightarrow> instant \<Rightarrow> table \<Rightarrow> task_row option result \<times> table" where
  "worker_claimTask i worker now rows =
     (case pg_varchar255 worker of Inl e \<Rightarrow> (Inl e, rows)
      | Inr w \<Rightarrow>
          (case sql_update now (worker_claimable i) attempts_room (claim_row now w) rows of
             (Inl e, rows') \<Rightarrow> (Inl e, rows')
           | (Inr rs, rows') \<Rightarrow> (Inr (case rs of [] \<Rightarrow> None | r # _ \<Rightarrow> Some r), rows')))"

text \<open>Every other statement reports whether a row was hit (\<open>result.rowCount > 0\<close>).\<close>

definition hit :: "table result \<times> table \<Rightarrow> bool result \<times> table" where
  "hit p = (case p of (Inl e, rows) \<Rightarrow> (Inl e, rows) | (Inr rs, rows) \<Rightarrow> (Inr (rs \<noteq> []), rows))"

definition beats :: "uuid \<Rightarrow> string \<Rightarrow> task_row \<Rightarrow> bool" where
  "beats i w r \<longleftrightarrow> c_id r = i \<and> c_locked_by r = Some w \<and> c_status r = IN_PROGRESS"

definition beat_row :: "instant \<Rightarrow> task_row \<Rightarrow> task_row" where
  "beat_row now r = r\<lparr>c_locked_at := Some now\<rparr>"

definition worker_heartbeat :: "uuid \<Rightarrow> string \<Rightarrow> instant \<Rightarrow> table \<Rightarrow> bool result \<times> table" where
  "worker_heartbeat i w now rows = hit (sql_update now (beats i w) (\<lambda>_. True) (beat_row now) rows)"

text \<open>The fence of the result writes.\<close>

definition owned :: "uuid \<Rightarrow> string \<Rightarrow> task_row \<Rightarrow> bool" where
  "owned i w r \<longleftrightarrow> c_id r = i \<and> c_locked_by r = Some w"

definition success_row :: "task_row \<Rightarrow> task_row" where
  "success_row r = r\<lparr>c_status := SUCCESS, c_locked_at := None, c_locked_by := None\<rparr>"

definition worker_updateTaskSuccess ::
  "uuid \<Rightarrow> string \<Rightarrow> instant \<Rightarrow> table \<Rightarrow> bool result \<times> table" where
  "worker_updateTaskSuccess i w now rows =
     hit (sql_update now (owned i w) (\<lambda>_. True) success_row rows)"

definition retry_row :: "string option \<Rightarrow> task_row \<Rightarrow> task_row" where
  "retry_row err r =
     r\<lparr>c_status := RETRY, c_error := err, c_locked_at := None, c_locked_by := None\<rparr>"

definition worker_updateTaskRetry ::
  "uuid \<Rightarrow> string \<Rightarrow> string option \<Rightarrow> instant \<Rightarrow> table \<Rightarrow> bool result \<times> table" where
  "worker_updateTaskRetry i w err now rows =
     (case pg_opt pg_text err of Inl e \<Rightarrow> (Inl e, rows)
      | Inr err' \<Rightarrow> hit (sql_update now (owned i w) (\<lambda>_. True) (retry_row err') rows))"

definition schedule_row :: "instant \<Rightarrow> task_row \<Rightarrow> task_row" where
  "schedule_row at r =
     r\<lparr>c_status := PENDING, c_scheduled_for := Some at, c_locked_at := None, c_locked_by := None\<rparr>"

definition worker_scheduleTask ::
  "uuid \<Rightarrow> string \<Rightarrow> instant \<Rightarrow> instant \<Rightarrow> table \<Rightarrow> bool result \<times> table" where
  "worker_scheduleTask i w at now rows =
     hit (sql_update now (owned i w) (\<lambda>_. True) (schedule_row at) rows)"

definition dead_row :: "string option \<Rightarrow> string option \<Rightarrow> task_row \<Rightarrow> task_row" where
  "dead_row err ev r =
     r\<lparr>c_status := DEAD_LETTER, c_error := err, c_evidence := ev,
       c_locked_at := None, c_locked_by := None\<rparr>"

definition worker_updateTaskDeadLetter ::
  "uuid \<Rightarrow> string \<Rightarrow> string option \<Rightarrow> string option \<Rightarrow> instant \<Rightarrow> table \<Rightarrow> bool result \<times> table" where
  "worker_updateTaskDeadLetter i w err ev now rows =
     (case pg_opt pg_text err of Inl e \<Rightarrow> (Inl e, rows) | Inr err' \<Rightarrow>
      (case pg_opt pg_text ev of Inl e \<Rightarrow> (Inl e, rows) | Inr ev' \<Rightarrow>
       hit (sql_update now (owned i w) (\<lambda>_. True) (dead_row err' ev') rows)))"

lemmas worker_defs = worker_claimTask_def worker_heartbeat_def worker_updateTaskSuccess_def
  worker_updateTaskRetry_def worker_scheduleTask_def worker_updateTaskDeadLetter_def hit_def

declare worker_defs [sql_defs]

end
