(* ===== verification/Table_Steps.thy ===== *)
theory Table_Steps
  imports Worker_Db
begin

text \<open>
  The table as a state machine: every writing statement of the repository and of the
  worker is an action, a step of the database is one action or the passing of time, and
  whatever the processes do concurrently is a sequence of steps (Postgres serialises the
  single-statement transactions on a row).  The invariants of the table are proved for
  every such sequence.
\<close>

section \<open>Actions and steps\<close>

datatype db_action =
    Insert uuid uuid string string "string option" "instant option"
  | Claim uuid string
  | SetStatus uuid string "string option"
  | Requeue uuid int
  | WClaim uuid string
  | Heartbeat uuid string
  | WSuccess uuid string
  | WRetry uuid string "string option"
  | WSchedule uuid string instant
  | WDeadLetter uuid string "string option" "string option"

fun apply_action :: "(string \<Rightarrow> string option) \<Rightarrow> instant \<Rightarrow> db_action \<Rightarrow> table \<Rightarrow> table" where
  "apply_action J now (Insert newid key svc email p sched) rows =
     snd (sql_insert J newid key svc email p sched now rows)"
| "apply_action J now (Claim i w) rows = snd (sql_claim i w now rows)"
| "apply_action J now (SetStatus i st err) rows = snd (sql_set_status i st err now rows)"
| "apply_action J now (Requeue i th) rows = snd (sql_requeue i th now rows)"
| "apply_action J now (WClaim i w) rows = snd (worker_claimTask i w now rows)"
| "apply_action J now (Heartbeat i w) rows = snd (worker_heartbeat i w now rows)"
| "apply_action J now (WSuccess i w) rows = snd (worker_updateTaskSuccess i w now rows)"
| "apply_action J now (WRetry i w err) rows = snd (worker_updateTaskRetry i w err now rows)"
| "apply_action J now (WSchedule i w at) rows = snd (worker_scheduleTask i w at now rows)"
| "apply_action J now (WDeadLetter i w err ev) rows =
     snd (worker_updateTaskDeadLetter i w err ev now rows)"

text \<open>\<open>A\<close> is the set of actions the running system uses.\<close>

inductive db_step ::
  "(string \<Rightarrow> string option) \<Rightarrow> (db_action \<Rightarrow> bool) \<Rightarrow> instant \<times> table \<Rightarrow> instant \<times> table \<Rightarrow> bool"
  for J :: "string \<Rightarrow> string option" and A :: "db_action \<Rightarrow> bool" where
  statement: "A a \<Longrightarrow> db_step J A (t, rows) (t, apply_action J t a rows)"
| time: "t \<le> t' \<Longrightarrow> db_step J A (t, rows) (t', rows)"

inductive_cases db_stepE: "db_step J A s s'"

abbreviation db_steps ::
  "(string \<Rightarrow> string option) \<Rightarrow> (db_action \<Rightarrow> bool) \<Rightarrow> instant \<times> table \<Rightarrow> instant \<times> table \<Rightarrow> bool" where
  "db_steps J A \<equiv> (db_step J A)\<^sup>*\<^sup>*"

lemma db_steps_statement: "A a \<Longrightarrow> db_steps J A (t, rows) (t, apply_action J t a rows)"
  by (rule r_into_rtranclp) (rule db_step.statement)

section \<open>What a statement can do to the rows\<close>

text \<open>
  Every update is one of eight row transformers under its guard; \<open>row_update\<close> collects
  them, so that a fact about all statements is proved once per transformer.
\<close>

inductive row_update :: "instant \<Rightarrow> db_action \<Rightarrow> task_row \<Rightarrow> task_row \<Rightarrow> bool" for now :: instant where
  claim: "claimable now i r \<Longrightarrow> attempts_room r \<Longrightarrow> pg_varchar255 w = Inr w' \<Longrightarrow>
    row_update now (Claim i w) r (touch now (claim_row now w' r))"
| set_status: "c_id r = i \<Longrightarrow> enum_in st = Some st' \<Longrightarrow>
    row_update now (SetStatus i st err) r (touch now (set_status_row st' err' r))"
| requeue: "c_id r = i \<Longrightarrow> is_stale th now r \<Longrightarrow>
    row_update now (Requeue i th) r (touch now (release_row r))"
| worker_claim: "worker_claimable i r \<Longrightarrow> attempts_room r \<Longrightarrow> pg_varchar255 w = Inr w' \<Longrightarrow>
    row_update now (WClaim i w) r (touch now (claim_row now w' r))"
| heartbeat: "beats i w r \<Longrightarrow> row_update now (Heartbeat i w) r (touch now (beat_row now r))"
| success: "owned i w r \<Longrightarrow> row_update now (WSuccess i w) r (touch now (success_row r))"
| retry: "owned i w r \<Longrightarrow> row_update now (WRetry i w err) r (touch now (retry_row err' r))"
| schedule: "owned i w r \<Longrightarrow>
    row_update now (WSchedule i w at) r (touch now (schedule_row at r))"
| dead_letter: "owned i w r \<Longrightarrow>
    row_update now (WDeadLetter i w err ev) r (touch now (dead_row err' ev' r))"

inductive_simps row_update_simps [simp]:
  "row_update now (Insert newid key svc email p sched) r r'"
  "row_update now (Claim i w) r r'"
  "row_update now (SetStatus i st err) r r'"
  "row_update now (Requeue i th) r r'"
  "row_update now (WClaim i w) r r'"
  "row_update now (Heartbeat i w) r r'"
  "row_update now (WSuccess i w) r r'"
  "row_update now (WRetry i w err) r r'"
  "row_update now (WSchedule i w at) r r'"
  "row_update now (WDeadLetter i w err ev) r r'"

lemmas row_transformers = touch_def claim_row_def set_status_row_def release_row_def beat_row_def
  success_row_def retry_row_def schedule_row_def dead_row_def

lemma rows_unchanged: "\<exists>f. rows = map f rows \<and> (\<forall>r\<in>set rows. f r = r \<or> Q r (f r))"
  by (intro exI [where x = "\<lambda>r. r"]) simp

lemma sql_update_rows:
  assumes "\<And>r. r \<in> set rows \<Longrightarrow> P r \<Longrightarrow> ok r \<Longrightarrow> Q r (touch now (g r))"
  shows "\<exists>f. snd (sql_update now P ok g rows) = map f rows \<and> (\<forall>r\<in>set rows. f r = r \<or> Q r (f r))"
proof (cases "list_all (\<lambda>r. P r \<longrightarrow> ok r) rows")
  case True
  then show ?thesis using assms
    by (intro exI [where x = "\<lambda>r. if P r then touch now (g r) else r"])
      (auto simp: sql_update_def list_all_iff)
next
  case False
  then have "snd (sql_update now P ok g rows) = rows" by (simp add: sql_update_def)
  then show ?thesis using rows_unchanged [of rows Q] by simp
qed

lemma snd_hit [simp]: "snd (hit p) = snd p"
  by (simp add: hit_def split: prod.split sum.split)

lemma snd_result_map [simp]:
  "snd (case p of (Inl e, rs) \<Rightarrow> (Inl e, rs) | (Inr x, rs) \<Rightarrow> (Inr (h x), rs)) = snd p"
  by (simp split: prod.split sum.split)

lemma apply_action_rows:
  assumes "\<And>newid key svc email p sched. a \<noteq> Insert newid key svc email p sched"
  shows "\<exists>f. apply_action J now a rows = map f rows \<and>
    (\<forall>r\<in>set rows. f r = r \<or> row_update now a r (f r))"
proof (cases a)
  case (Insert newid key svc email p sched)
  with assms show ?thesis by blast
next
  case (Claim i w)
  show ?thesis
    unfolding Claim apply_action.simps sql_claim_def
    by (cases "pg_varchar255 w")
      (auto simp del: row_update_simps intro: rows_unchanged sql_update_rows row_update.intros)
next
  case (SetStatus i st err)
  show ?thesis
    unfolding SetStatus apply_action.simps sql_set_status_def
    by (cases "enum_in st"; cases "pg_opt pg_text err")
      (auto simp: pg_status_def intro: rows_unchanged sql_update_rows exI [where x = "\<lambda>r. r"])
next
  case (Requeue i th)
  show ?thesis
    unfolding Requeue apply_action.simps sql_requeue_def
    by (auto intro: sql_update_rows)
next
  case (WClaim i w)
  show ?thesis
    unfolding WClaim apply_action.simps worker_claimTask_def
    by (cases "pg_varchar255 w")
      (auto simp del: row_update_simps intro: rows_unchanged sql_update_rows row_update.intros)
next
  case (Heartbeat i w)
  show ?thesis
    unfolding Heartbeat apply_action.simps worker_heartbeat_def
    by (auto intro: sql_update_rows)
next
  case (WSuccess i w)
  show ?thesis
    unfolding WSuccess apply_action.simps worker_updateTaskSuccess_def
    by (auto intro: sql_update_rows)
next
  case (WRetry i w err)
  show ?thesis
    unfolding WRetry apply_action.simps worker_updateTaskRetry_def
    by (cases "pg_opt pg_text err") (auto intro: rows_unchanged sql_update_rows)
next
  case (WSchedule i w at)
  show ?thesis
    unfolding WSchedule apply_action.simps worker_scheduleTask_def
    by (auto intro: sql_update_rows)
next
  case (WDeadLetter i w err ev)
  show ?thesis
    unfolding WDeadLetter apply_action.simps worker_updateTaskDeadLetter_def
    by (cases "pg_opt pg_text err"; cases "pg_opt pg_text ev")
      (auto simp del: row_update_simps intro: rows_unchanged sql_update_rows row_update.intros)
qed

lemma apply_insert_rows:
  "apply_action J now (Insert newid key svc email p sched) rows = rows \<or>
   (\<exists>svc' email' p'. newid \<notin> c_id ` set rows \<and> key \<notin> c_key ` set rows \<and>
     varchar_ok svc' \<and> varchar_ok email' \<and>
     apply_action J now (Insert newid key svc email p sched) rows =
       rows @ [default_row now newid key svc' email' p' sched])"
  by (auto simp: sql_insert_def insert_row_def dest!: pg_varchar255_ok split: sum.split)

text \<open>
  The two shapes of a step, as one elimination rule: an appended default row with a fresh
  id and key, or rows rewritten in place.
\<close>

lemma action_cases:
  obtains (insert) newid key svc email p sched where
      "newid \<notin> c_id ` set rows" "key \<notin> c_key ` set rows" "varchar_ok svc" "varchar_ok email"
      "apply_action J now a rows = rows @ [default_row now newid key svc email p sched]"
  | (update) f where "apply_action J now a rows = map f rows"
      "\<And>r. r \<in> set rows \<Longrightarrow> f r = r \<or> row_update now a r (f r)"
proof (cases "\<exists>newid key svc email p sched. a = Insert newid key svc email p sched")
  case True
  then obtain newid key svc email p sched where a: "a = Insert newid key svc email p sched" by blast
  show thesis
    using apply_insert_rows [of J now newid key svc email p sched rows] insert
      update [of "\<lambda>r. r"] unfolding a by auto
next
  case False
  then show thesis using apply_action_rows [of a J now rows] update by blast
qed

end
