(* ===== verification/Table_Invariants.thy ===== *)
theory Table_Invariants
  imports Table_Steps
begin

text \<open>
  Invariants of the tasks table under every sequence of statements of the API server and
  the workers: unique ids and keys, sound timestamps and counters, locks only on claimed
  rows; rows are never lost and keep their identity; terminal rows are final; a claim is
  exclusive until it is released.
\<close>

section \<open>The table invariant\<close>

definition row_ok :: "instant \<Rightarrow> task_row \<Rightarrow> bool" where
  "row_ok t r \<longleftrightarrow>
     0 \<le> c_attempts r \<and> c_attempts r \<le> int4_max \<and> c_max r = 3 \<and>
     c_created_at r \<le> c_updated_at r \<and> c_updated_at r \<le> t \<and>
     varchar_ok (c_service r) \<and> varchar_ok (c_email r) \<and>
     (case c_locked_by r of None \<Rightarrow> True | Some w \<Rightarrow> varchar_ok w) \<and>
     (c_locked_at r = None \<longleftrightarrow> c_locked_by r = None) \<and>
     (case c_locked_at r of None \<Rightarrow> True | Some l \<Rightarrow> l \<le> c_updated_at r \<and> c_status r = IN_PROGRESS)"

definition table_ok :: "instant \<Rightarrow> table \<Rightarrow> bool" where
  "table_ok t rows \<longleftrightarrow>
     distinct (map c_id rows) \<and> distinct (map c_key rows) \<and> list_all (row_ok t) rows"

text \<open>What a step keeps of a row: its identity, its inputs and its age; counters and
  timestamps only grow.\<close>

definition same_task :: "task_row \<Rightarrow> task_row \<Rightarrow> bool" where
  "same_task r r' \<longleftrightarrow>
     c_id r' = c_id r \<and> c_key r' = c_key r \<and> c_service r' = c_service r \<and>
     c_email r' = c_email r \<and> c_payload r' = c_payload r \<and> c_max r' = c_max r \<and>
     c_created_at r' = c_created_at r \<and> c_attempts r \<le> c_attempts r'"

definition evolves :: "table \<Rightarrow> table \<Rightarrow> bool" where
  "evolves rows rows' \<longleftrightarrow> list_all (\<lambda>r. list_ex (same_task r) rows') rows"

lemma row_update_same_task: "row_update now a r r' \<Longrightarrow> same_task r r'"
  by (cases a) (auto simp: same_task_def row_transformers)

lemma row_update_ok: "row_update now a r r' \<Longrightarrow> row_ok now r \<Longrightarrow> row_ok now r'"
  by (cases a)
    (auto simp: row_ok_def row_transformers attempts_room_def claimable_def worker_claimable_def
      is_stale_def owned_def beats_def dest!: pg_varchar255_ok split: option.splits)

lemma same_task_refl [simp, intro]: "same_task r r"
  by (simp add: same_task_def)

lemma same_task_trans: "same_task r s \<Longrightarrow> same_task s t \<Longrightarrow> same_task r t"
  by (simp add: same_task_def)

lemma evolves_refl [simp, intro]: "evolves rows rows"
  by (auto simp: evolves_def list_all_iff list_ex_iff)

lemma evolves_trans: "evolves a b \<Longrightarrow> evolves b c \<Longrightarrow> evolves a c"
  unfolding evolves_def list_all_iff list_ex_iff by (meson same_task_trans)

lemma evolvesE:
  assumes "evolves rows rows'" and "r \<in> set rows"
  obtains r' where "r' \<in> set rows'" and "same_task r r'"
  using assms by (auto simp: evolves_def list_all_iff list_ex_iff)

lemma row_ok_mono: "row_ok t r \<Longrightarrow> t \<le> t' \<Longrightarrow> row_ok t' r"
  by (auto simp: row_ok_def)

lemma table_ok_mono: "table_ok t rows \<Longrightarrow> t \<le> t' \<Longrightarrow> table_ok t' rows"
  by (auto simp: table_ok_def list_all_iff intro: row_ok_mono)

lemma default_row_ok:
  "varchar_ok svc \<Longrightarrow> varchar_ok email \<Longrightarrow> row_ok t (default_row t newid key svc email p sched)"
  by (simp add: row_ok_def default_row_def int4_max_def)

lemma default_row_simps [simp]:
  "c_id (default_row t i k s e p at) = i" "c_key (default_row t i k s e p at) = k"
  "c_status (default_row t i k s e p at) = PENDING"
  "c_locked_at (default_row t i k s e p at) = None"
  "c_locked_by (default_row t i k s e p at) = None"
  "c_scheduled_for (default_row t i k s e p at) = at"
  by (simp_all add: default_row_def)

lemma in_place_frame:
  assumes "\<And>r. r \<in> set rows \<Longrightarrow> f r = r \<or> row_update now a r (f r)"
  shows "map c_id (map f rows) = map c_id rows" and "map c_key (map f rows) = map c_key rows"
    and "\<And>r. r \<in> set rows \<Longrightarrow> same_task r (f r)"
  using assms row_update_same_task by (fastforce simp: same_task_def)+

lemma apply_action_table_ok: "table_ok t rows \<Longrightarrow> table_ok t (apply_action J t a rows)"
proof (cases rule: action_cases [of rows J t a])
  case (insert newid key svc email p sched)
  moreover assume "table_ok t rows"
  ultimately show ?thesis by (simp add: table_ok_def default_row_ok)
next
  case (update f)
  assume ok: "table_ok t rows"
  have "row_ok t (f r)" if "r \<in> set rows" for r
    using update(2) [OF that] that ok row_update_ok by (auto simp: table_ok_def list_all_iff)
  moreover have "map c_id (map f rows) = map c_id rows" "map c_key (map f rows) = map c_key rows"
    using in_place_frame(1,2) [of rows f t a] update(2) by blast+
  ultimately show ?thesis using ok
    unfolding table_ok_def update(1) by (simp add: list_all_iff del: map_map)
qed

lemma apply_action_evolves: "evolves rows (apply_action J t a rows)"
proof (cases rule: action_cases [of rows J t a])
  case (insert newid key svc email p sched)
  then show ?thesis by (auto simp: evolves_def list_all_iff list_ex_iff)
next
  case (update f)
  then show ?thesis using in_place_frame(3) [OF update(2)]
    by (auto simp: evolves_def list_all_iff list_ex_iff)
qed

section \<open>Runs\<close>

lemma db_step_table_ok: "db_step J A s s' \<Longrightarrow> table_ok (fst s) (snd s) \<Longrightarrow> table_ok (fst s') (snd s')"
  by (induction rule: db_step.induct) (auto intro: apply_action_table_ok table_ok_mono)

lemma db_steps_table_ok: "db_steps J A s s' \<Longrightarrow> table_ok (fst s) (snd s) \<Longrightarrow> table_ok (fst s') (snd s')"
  by (induction rule: rtranclp_induct) (auto intro: db_step_table_ok)

lemma db_steps_evolves: "db_steps J A s s' \<Longrightarrow> evolves (snd s) (snd s')"
proof (induction rule: rtranclp_induct)
  case base
  then show ?case by simp
next
  case (step s' s'')
  from step.hyps(2) have "evolves (snd s') (snd s'')"
    by (cases rule: db_step.cases) (auto intro: apply_action_evolves)
  with step.IH show ?case by (rule evolves_trans)
qed

lemma db_steps_time: "db_steps J A s s' \<Longrightarrow> fst s \<le> fst s'"
  by (induction rule: rtranclp_induct) (auto elim!: db_stepE)

lemma db_steps_mono: "db_steps J A s s' \<Longrightarrow> (\<And>a. A a \<Longrightarrow> B a) \<Longrightarrow> db_steps J B s s'"
  by (induction rule: rtranclp_induct)
    (auto elim!: db_stepE intro: rtranclp.rtrancl_into_rtrancl db_step.intros)

text \<open>An invariant of the rows that the transformers keep and default rows have.\<close>

lemma db_steps_rows:
  assumes "db_steps J A s s'" and "list_all P (snd s)"
    and new: "\<And>t i k sv e p at. P (default_row t i k sv e p at)"
    and upd: "\<And>t a r r'. A a \<Longrightarrow> P r \<Longrightarrow> row_update t a r r' \<Longrightarrow> P r'"
  shows "list_all P (snd s')"
  using assms(1,2)
proof (induction rule: rtranclp_induct)
  case base
  then show ?case .
next
  case (step s' s'')
  then have IH: "list_all P (snd s')" by blast
  from step.hyps(2) show ?case
  proof (cases rule: db_step.cases)
    case (statement a t rows)
    show ?thesis
    proof (cases rule: action_cases [of rows J t a])
      case (insert newid key svc email p sched)
      with IH new statement show ?thesis by simp
    next
      case (update f)
      have "P (f r)" if "r \<in> set rows" for r
        using update(2) [OF that] upd [OF statement(3), of r t "f r"] IH that statement
        by (auto simp: list_all_iff)
      then show ?thesis unfolding statement update(1) by (auto simp: list_all_iff)
    qed
  next
    case (time t t' rows)
    with IH show ?thesis by simp
  qed
qed

end
