(* ===== verification/Lifecycle.thy ===== *)
theory Lifecycle
  imports Table_Invariants
begin

text \<open>
  The life of one task in the shared table: which status changes the statements can make,
  that terminal rows are final, that a claim is exclusive until it is released, that a
  worker who lost its lock can no longer write, and when IN_PROGRESS means locked.
\<close>

section \<open>Status changes\<close>

text \<open>
  \<open>no_set_status\<close>: the running system, in which nothing calls \<open>UpdateTaskStatus\<close>;
  \<open>safe_action\<close>: it is called, but not to write IN_PROGRESS, as its comment says.
\<close>

fun no_set_status :: "db_action \<Rightarrow> bool" where
  "no_set_status (SetStatus i st err) = False"
| "no_set_status a = True"

fun safe_action :: "db_action \<Rightarrow> bool" where
  "safe_action (SetStatus i st err) = (st \<noteq> ''IN_PROGRESS'')"
| "safe_action a = True"

fun status_edge :: "task_status \<Rightarrow> task_status \<Rightarrow> bool" where
  "status_edge PENDING st = (st \<in> {PENDING, IN_PROGRESS})"
| "status_edge RETRY st = (st \<in> {RETRY, IN_PROGRESS})"
| "status_edge IN_PROGRESS st = (st \<noteq> FAILED)"
| "status_edge SUCCESS st = (st = SUCCESS)"
| "status_edge DEAD_LETTER st = (st = DEAD_LETTER)"
| "status_edge FAILED st = (st = FAILED)"

definition terminal :: "task_row \<Rightarrow> bool" where
  "terminal r \<longleftrightarrow> c_status r \<in> {SUCCESS, FAILED, DEAD_LETTER}"

lemma row_update_edge:
  "row_update now a r r' \<Longrightarrow> no_set_status a \<Longrightarrow> row_ok now r \<Longrightarrow>
   status_edge (c_status r) (c_status r')"
  by (cases a)
    (auto simp: row_transformers claimable_def worker_claimable_def is_stale_def owned_def
      beats_def row_ok_def split: option.splits)

lemma row_update_terminal:
  "row_update now a r r' \<Longrightarrow> no_set_status a \<Longrightarrow> row_ok now r \<Longrightarrow> \<not> terminal r"
  by (cases a)
    (auto simp: terminal_def claimable_def worker_claimable_def is_stale_def owned_def
      beats_def row_ok_def split: option.splits)

lemma row_update_not_failed:
  "row_update now a r r' \<Longrightarrow> no_set_status a \<Longrightarrow> c_status r \<noteq> FAILED \<Longrightarrow> c_status r' \<noteq> FAILED"
  by (cases a) (auto simp: row_transformers)

lemma row_update_locked:
  "row_update now a r r' \<Longrightarrow> safe_action a \<Longrightarrow>
   (c_status r = IN_PROGRESS \<Longrightarrow> c_locked_at r \<noteq> None) \<Longrightarrow>
   c_status r' = IN_PROGRESS \<Longrightarrow> c_locked_at r' \<noteq> None"
  by (cases a) (auto simp: row_transformers dest!: enum_in_SomeD)

lemma apply_action_keeps_terminal:
  assumes "table_ok t rows" and "no_set_status a" and "r \<in> set rows" and "terminal r"
  shows "r \<in> set (apply_action J t a rows)"
proof (cases rule: action_cases [of rows J t a])
  case (insert newid key svc email p sched)
  with assms show ?thesis by simp
next
  case (update f)
  from assms have "\<not> row_update t a r (f r)"
    using row_update_terminal by (auto simp: table_ok_def list_all_iff)
  with update(2) [OF assms(3)] have "f r = r" by blast
  with assms(3) show ?thesis unfolding update(1) by force
qed

lemma db_steps_keep_terminal:
  assumes "db_steps J no_set_status (t, rs) (t', rs')" and "table_ok t rs"
    and "r \<in> set rs" and "terminal r"
  shows "r \<in> set rs'"
proof -
  have "table_ok (fst s') (snd s') \<and> r \<in> set (snd s')"
    if "db_steps J no_set_status (t, rs) s'" for s'
    using that
  proof (induction rule: rtranclp_induct)
    case base
    then show ?case using assms(2,3) by simp
  next
    case (step s1 s2)
    then have "table_ok (fst s2) (snd s2)" using db_step_table_ok by blast
    with step show ?case
      by (auto elim!: db_stepE intro: apply_action_keeps_terminal [OF _ _ _ assms(4)])
  qed
  from this [OF assms(1)] show ?thesis by simp
qed

section \<open>Claims\<close>

text \<open>The actions that can end a claim on a task.\<close>

fun releases :: "uuid \<Rightarrow> db_action \<Rightarrow> bool" where
  "releases i (SetStatus j st err) = (j = i)"
| "releases i (Requeue j th) = (j = i)"
| "releases i (WSuccess j w) = (j = i)"
| "releases i (WRetry j w err) = (j = i)"
| "releases i (WSchedule j w at) = (j = i)"
| "releases i (WDeadLetter j w err ev) = (j = i)"
| "releases i a = False"

text \<open>The actions that can give worker \<open>w\<close> the lock of a task.\<close>

fun locks_for :: "uuid \<Rightarrow> string \<Rightarrow> db_action \<Rightarrow> bool" where
  "locks_for i w (Claim j w') = (j = i \<and> pg_varchar255 w' = Inr w)"
| "locks_for i w (WClaim j w') = (j = i \<and> pg_varchar255 w' = Inr w)"
| "locks_for i w a = False"

definition claimed :: "uuid \<Rightarrow> table \<Rightarrow> bool" where
  "claimed i rows \<longleftrightarrow>
     i \<in> set (map c_id rows) \<and> list_all (\<lambda>r. c_id r = i \<longrightarrow> c_status r = IN_PROGRESS) rows"

definition lost :: "uuid \<Rightarrow> string \<Rightarrow> task_row \<Rightarrow> bool" where
  "lost i w r \<longleftrightarrow> (c_id r = i \<longrightarrow> c_locked_by r \<noteq> Some w)"

lemma row_update_claimed:
  "row_update now a r r' \<Longrightarrow> \<not> releases (c_id r) a \<Longrightarrow> c_status r = IN_PROGRESS \<Longrightarrow>
   c_status r' = IN_PROGRESS"
  by (cases a)
    (auto simp: row_transformers claimable_def worker_claimable_def owned_def beats_def)

lemma row_update_lost:
  "row_update now a r r' \<Longrightarrow> \<not> locks_for i w a \<Longrightarrow> lost i w r \<Longrightarrow> lost i w r'"
  by (cases a)
    (auto simp: lost_def row_transformers claimable_def worker_claimable_def)

lemma apply_action_claimed:
  assumes "claimed i rows" and "\<not> releases i a"
  shows "claimed i (apply_action J t a rows)"
proof (cases rule: action_cases [of rows J t a])
  case (insert newid key svc email p sched)
  with assms show ?thesis by (auto simp: claimed_def)
next
  case (update f)
  have "c_id (f r) = c_id r" if "r \<in> set rows" for r
    using in_place_frame(3) [of rows f t a r] update(2) that by (simp add: same_task_def)
  moreover have "c_status (f r) = IN_PROGRESS" if "r \<in> set rows" "c_id r = i" for r
    using update(2) [OF that(1)] row_update_claimed [of t a r "f r"] assms that
    by (auto simp: claimed_def list_all_iff)
  ultimately show ?thesis using assms(1)
    unfolding claimed_def update(1) by (auto simp: list_all_iff)
qed

lemma db_steps_claimed:
  "db_steps J A s s' \<Longrightarrow> (\<And>a. A a \<Longrightarrow> \<not> releases i a) \<Longrightarrow> claimed i (snd s) \<Longrightarrow> claimed i (snd s')"
  by (induction rule: rtranclp_induct) (fastforce elim!: db_stepE dest: apply_action_claimed)+

lemma claimed_not_claimable:
  assumes "claimed i rows"
  shows "fst (sql_claim i w now rows) \<noteq> Inr (Some r)"
    and "fst (worker_claimTask i w now rows) \<noteq> Inr (Some r)"
proof -
  have "filter (claimable now i) rows = []" "filter (worker_claimable i) rows = []"
    using assms by (auto simp: claimed_def list_all_iff filter_empty_conv claimable_def
        worker_claimable_def)
  then show "fst (sql_claim i w now rows) \<noteq> Inr (Some r)"
    "fst (worker_claimTask i w now rows) \<noteq> Inr (Some r)"
    by (auto simp: sql_defs split: sum.splits)
qed

lemma sql_claim_claimed:
  assumes "table_ok t rows" and "fst (sql_claim i w now rows) = Inr (Some r)"
  shows "claimed i (snd (sql_claim i w now rows))"
proof -
  obtain w' where w: "pg_varchar255 w = Inr w'" using assms(2)
    by (cases "pg_varchar255 w") (auto simp: sql_claim_def)
  have ok: "list_all (\<lambda>r. claimable now i r \<longrightarrow> attempts_room r) rows"
    using assms(2) w by (auto simp: sql_defs split: if_splits)
  then have "filter (claimable now i) rows \<noteq> []"
    using assms(2) w by (auto simp: sql_defs)
  then obtain x where x: "x \<in> set rows" "claimable now i x" by (auto simp: filter_empty_conv)
  have only: "y = x" if "y \<in> set rows" "c_id y = i" for y
    using distinct_key_eq [of c_id rows y x] assms(1) x that
    by (simp add: table_ok_def claimable_def)
  have "snd (sql_claim i w now rows) =
      map (\<lambda>r. if claimable now i r then touch now (claim_row now w' r) else r) rows"
    using w ok by (simp add: sql_claim_def sql_update_def)
  then show ?thesis using x only
    by (auto simp: claimed_def list_all_iff row_transformers claimable_def image_iff Bex_def)
qed

lemma fenced:
  assumes "list_all (lost i w) rows"
  shows "apply_action J t (WSuccess i w) rows = rows"
    and "apply_action J t (WRetry i w err) rows = rows"
    and "apply_action J t (WSchedule i w at) rows = rows"
    and "apply_action J t (WDeadLetter i w err ev) rows = rows"
    and "apply_action J t (Heartbeat i w) rows = rows"
proof -
  have "map (\<lambda>r. if owned i w r then g r else r) rows = rows"
    "map (\<lambda>r. if beats i w r then g r else r) rows = rows" for g
    using assms by (auto simp: list_all_iff lost_def owned_def beats_def intro!: map_idI)
  then show "apply_action J t (WSuccess i w) rows = rows"
    "apply_action J t (WRetry i w err) rows = rows"
    "apply_action J t (WSchedule i w at) rows = rows"
    "apply_action J t (WDeadLetter i w err ev) rows = rows"
    "apply_action J t (Heartbeat i w) rows = rows"
    by (simp_all add: sql_defs split: sum.splits)
qed

end
