(* ===== verification/Go_Text.thy ===== *)
theory Go_Text
  imports Prelude
begin

text \<open>
  What the program uses of Go's standard library on text: decimal numbers
  (\<^verbatim>\<open>strconv.Itoa\<close>), \<^verbatim>\<open>time.Duration.String\<close>, \<^verbatim>\<open>strings.TrimSpace\<close> and
  \<^verbatim>\<open>strings.Join\<close>.
\<close>

section \<open>Decimal numbers\<close>

definition digit :: "nat \<Rightarrow> char" where
  "digit n = ''0123456789'' ! n"

fun dec :: "nat \<Rightarrow> string" where
  "dec n = (if n < 10 then [digit n] else dec (n div 10) @ [digit (n mod 10)])"

declare dec.simps [simp del]

definition Itoa :: "int \<Rightarrow> string" where
  "Itoa i = (if i < 0 then CHR ''-'' # dec (nat (- i)) else dec (nat i))"

section \<open>time.Duration.String\<close>

text \<open>
  \<open>fmt_frac v prec printing acc\<close> is the loop of \<open>fmtFrac\<close>: \<open>prec\<close> decimals of \<open>v\<close> from the
  right, trailing zeros dropped; the second component is what is left of \<open>v\<close>.
\<close>

fun fmt_frac :: "nat \<Rightarrow> nat \<Rightarrow> bool \<Rightarrow> string \<Rightarrow> string \<times> nat" where
  "fmt_frac v 0 printing acc = (if printing then CHR ''.'' # acc else acc, v)"
| "fmt_frac v (Suc prec) printing acc =
     (let d = v mod 10; p = printing \<or> d \<noteq> 0
      in fmt_frac (v div 10) prec p (if p then digit d # acc else acc))"

definition duration_abs :: "nat \<Rightarrow> string" where
  "duration_abs u =
     (if u = 0 then ''0s''
      else if u < 1000 then dec u @ ''ns''
      else if u < 1000000
      then (let (f, v) = fmt_frac u 3 False [CHR 0xC2, CHR 0xB5, CHR ''s''] in dec v @ f)
      else if u < 1000000000 then (let (f, v) = fmt_frac u 6 False ''ms'' in dec v @ f)
      else (let (f, v) = fmt_frac u 9 False ''s''; secs = dec (v mod 60) @ f; mins = v div 60
            in if mins = 0 then secs
               else if mins div 60 = 0 then dec (mins mod 60) @ ''m'' @ secs
               else dec (mins div 60) @ ''h'' @ dec (mins mod 60) @ ''m'' @ secs))"

definition duration_String :: "int \<Rightarrow> string" where
  "duration_String d =
     (if d < 0 then CHR ''-'' # duration_abs (nat (- d)) else duration_abs (nat d))"

definition Second :: int where "Second = 1000000000"
definition Minute :: int where "Minute = 60 * Second"

lemma fmt_frac_zero: "fmt_frac (v * 10 ^ prec) prec False acc = (acc, v)"
proof (induction prec)
  case 0
  then show ?case by simp
next
  case (Suc prec)
  have "v * 10 ^ Suc prec mod 10 = 0" "v * 10 ^ Suc prec div 10 = v * 10 ^ prec" by simp_all
  then show ?case by (simp only: fmt_frac.simps Let_def) (simp add: Suc.IH)
qed

lemma duration_String_30s: "duration_String (30 * Second) = ''30s''"
  using fmt_frac_zero [of 30 9 "''s''"]
  by (simp add: duration_String_def duration_abs_def Second_def dec.simps digit_def)

lemma duration_String_2m: "duration_String (2 * Minute) = ''2m0s''"
  using fmt_frac_zero [of 120 9 "''s''"]
  by (simp add: duration_String_def duration_abs_def Second_def Minute_def dec.simps digit_def)

section \<open>strings.TrimSpace, strings.Join\<close>

text \<open>
  The length in bytes of a leading white-space rune (0 if there is none): the ASCII ones,
  U+0085, U+00A0, U+1680, U+2000 to U+200A, U+2028, U+2029, U+202F, U+205F and U+3000.
\<close>

definition ascii_space :: "char \<Rightarrow> bool" where
  "ascii_space c \<longleftrightarrow> c \<in> {CHR 0x09, CHR 0x0A, CHR 0x0B, CHR 0x0C, CHR 0x0D, CHR '' ''}"

definition space2 :: "char \<Rightarrow> char \<Rightarrow> bool" where
  "space2 a b \<longleftrightarrow> a = CHR 0xC2 \<and> (b = CHR 0x85 \<or> b = CHR 0xA0)"

definition space3 :: "char \<Rightarrow> char \<Rightarrow> char \<Rightarrow> bool" where
  "space3 a b c \<longleftrightarrow>
     (a = CHR 0xE1 \<and> b = CHR 0x9A \<and> c = CHR 0x80) \<or>
     (a = CHR 0xE2 \<and> b = CHR 0x80 \<and>
       (128 \<le> (of_char c :: nat) \<and> (of_char c :: nat) \<le> 138 \<or> c \<in> {CHR 0xA8, CHR 0xA9, CHR 0xAF})) \<or>
     (a = CHR 0xE2 \<and> b = CHR 0x81 \<and> c = CHR 0x9F) \<or>
     (a = CHR 0xE3 \<and> b = CHR 0x80 \<and> c = CHR 0x80)"

fun trim_left :: "string \<Rightarrow> string" where
  "trim_left (a # b # c # s) =
     (if ascii_space a then trim_left (b # c # s)
      else if space2 a b then trim_left (c # s)
      else if space3 a b c then trim_left s
      else a # b # c # s)"
| "trim_left [a, b] =
     (if ascii_space a then trim_left [b] else if space2 a b then [] else [a, b])"
| "trim_left [a] = (if ascii_space a then [] else [a])"
| "trim_left [] = []"

text \<open>The same from the right, on the reversed bytes.\<close>

fun trim_right_rev :: "string \<Rightarrow> string" where
  "trim_right_rev (c # b # a # s) =
     (if ascii_space c then trim_right_rev (b # a # s)
      else if space2 b c then trim_right_rev (a # s)
      else if space3 a b c then trim_right_rev s
      else c # b # a # s)"
| "trim_right_rev [c, b] =
     (if ascii_space c then trim_right_rev [b] else if space2 b c then [] else [c, b])"
| "trim_right_rev [c] = (if ascii_space c then [] else [c])"
| "trim_right_rev [] = []"

definition TrimSpace :: "string \<Rightarrow> string" where
  "TrimSpace s = rev (trim_right_rev (rev (trim_left s)))"

fun strings_Join :: "string list \<Rightarrow> string \<Rightarrow> string" where
  "strings_Join [] sep = []"
| "strings_Join [s] sep = s"
| "strings_Join (s # t # ss) sep = s @ sep @ strings_Join (t # ss) sep"

text \<open>A string is blank when it is a sequence of white-space runes.\<close>

inductive blank :: "string \<Rightarrow> bool" where
  blank_Nil: "blank []"
| blank_1: "ascii_space a \<Longrightarrow> blank s \<Longrightarrow> blank (a # s)"
| blank_2: "space2 a b \<Longrightarrow> blank s \<Longrightarrow> blank (a # b # s)"
| blank_3: "space3 a b c \<Longrightarrow> blank s \<Longrightarrow> blank (a # b # c # s)"

lemma space_bytes:
  "ascii_space a \<Longrightarrow> \<not> space2 a b" "ascii_space a \<Longrightarrow> \<not> space3 a b c" "space2 a b \<Longrightarrow> \<not> space3 a b c"
  by (auto simp: ascii_space_def space2_def space3_def)

lemma trim_left_blank: "blank s \<Longrightarrow> trim_left s = []"
proof (induction rule: blank.induct)
  case blank_Nil
  then show ?case by simp
next
  case (blank_1 a s)
  then show ?case by (cases s rule: trim_left.cases) auto
next
  case (blank_2 a b s)
  then show ?case using space_bytes(1) by (cases s) auto
next
  case (blank_3 a b c s)
  then show ?case using space_bytes(2,3) by auto
qed

lemma trim_left_Nil: "trim_left s = [] \<Longrightarrow> blank s"
  by (induction s rule: trim_left.induct) (auto split: if_splits intro: blank.intros)

lemma trim_left_idem: "trim_left (trim_left s) = trim_left s"
  by (induction s rule: trim_left.induct) auto

lemma blank_append: "blank s \<Longrightarrow> blank s' \<Longrightarrow> blank (s @ s')"
  by (induction rule: blank.induct) (auto intro: blank.intros)

lemma blank_single: "ascii_space a \<Longrightarrow> blank [a]" "space2 a b \<Longrightarrow> blank [a, b]"
  "space3 a b c \<Longrightarrow> blank [a, b, c]"
  by (auto intro: blank.intros)

lemma trim_right_rev_Nil: "trim_right_rev t = [] \<Longrightarrow> blank (rev t)"
proof (induction t rule: trim_right_rev.induct)
  case (1 c b a s)
  consider "ascii_space c" | "\<not> ascii_space c" "space2 b c"
    | "\<not> ascii_space c" "\<not> space2 b c" "space3 a b c"
    using "1.prems" by (auto split: if_splits)
  then show ?case
  proof cases
    case 1
    with "1.IH"(1) "1.prems" show ?thesis
      using blank_append [of "rev (b # a # s)" "[c]"] by (simp add: blank_single)
  next
    case 2
    with "1.IH"(2) "1.prems" show ?thesis
      using blank_append [of "rev (a # s)" "[b, c]"] by (simp add: blank_single)
  next
    case 3
    with "1.IH"(3) "1.prems" show ?thesis
      using blank_append [of "rev s" "[a, b, c]"] by (simp add: blank_single)
  qed
qed (auto split: if_splits intro: blank.intros blank_single)

lemma TrimSpace_Nil_iff: "TrimSpace s = [] \<longleftrightarrow> blank s"
proof
  assume "TrimSpace s = []"
  then have "blank (trim_left s)"
    using trim_right_rev_Nil [of "rev (trim_left s)"] by (simp add: TrimSpace_def)
  then have "trim_left s = []" using trim_left_blank trim_left_idem by metis
  then show "blank s" by (rule trim_left_Nil)
next
  assume "blank s"
  then show "TrimSpace s = []" by (simp add: TrimSpace_def trim_left_blank)
qed

end
