(* ===== verification/Repository.thy ===== *)
theory Repository
  imports Lifecycle Go_Text
begin

text \<open>
  \<^verbatim>\<open>internal/repository/task_repo.go\<close>: the methods of \<open>PostgresTaskRepo\<close> over the statements
  of \<^verbatim>\<open>Tasks_Table\<close>, with the driver's failures, the error wrapping and the two-statement
  path of \<open>CreateTask\<close>, and the interface \<open>TaskRepository\<close> as a record of operations.

  Every statement runs at a moment: what other processes did since the last one (a list
  of statements with the time they took), the time that passed, whether the connection
  or the server fails it, the value \<^verbatim>\<open>gen_random_uuid()\<close> gives, and the heap order in which
  a SELECT without ORDER BY returns rows.  The moments still to come are part of the store.
\<close>

section \<open>The environment\<close>

text \<open>
  Code that is not in the repository: \<^verbatim>\<open>uuid.Parse\<close>, \<^verbatim>\<open>uuid.UUID.String\<close>, \<^verbatim>\<open>json.Marshal\<close> on
  a payload, \<^verbatim>\<open>json.Decode\<close> of a request body, and the input functions of the JSONB and
  INTERVAL types (in microseconds).
\<close>

record env =
  uuid_Parse :: "string \<Rightarrow> string + uuid"
  uuid_String :: "uuid \<Rightarrow> string"
  json_Marshal :: "(string \<times> json) list \<Rightarrow> string + string"
  json_Decode :: "string \<Rightarrow> string + CreateTaskRequest"
  jsonb_in :: "string \<Rightarrow> string option"
  interval_in :: "string \<Rightarrow> int option"

text \<open>
  \<open>Rejected\<close>: the server reports an error and the statement has no effect;
  \<open>NotExecuted\<close>: it never reached the server (or the context was cancelled first);
  \<open>ReplyLost\<close>: it took effect, but its reply did not come back.
\<close>

datatype fault = Healthy | Rejected string string | NotExecuted string | ReplyLost string

text \<open>How reading the rows of a SELECT can break: a scan error at a row, or a broken
  stream that \<^verbatim>\<open>rows.Err()\<close> reports after the rows read so far.\<close>

datatype rows_fault = RowsHealthy | ScanFails nat string | RowsBreak nat string

record moment =
  m_before :: "(nat \<times> db_action) list"
  m_elapsed :: nat
  m_fault :: fault
  m_rows_fault :: rows_fault
  m_uuid :: uuid
  m_rank :: "uuid \<Rightarrow> nat"

record pg =
  clock :: instant
  rows :: table
  calls :: nat
  future :: "nat \<Rightarrow> moment"

section \<open>Running a statement\<close>

fun run_actions ::
  "(string \<Rightarrow> string option) \<Rightarrow> (nat \<times> db_action) list \<Rightarrow> instant \<times> table \<Rightarrow> instant \<times> table" where
  "run_actions J [] st = st"
| "run_actions J ((dt, a) # as) (t, rs) =
     run_actions J as (t + int dt, apply_action J (t + int dt) a rs)"

definition exec ::
  "env \<Rightarrow> (moment \<Rightarrow> instant \<Rightarrow> table \<Rightarrow> 'a result \<times> table) \<Rightarrow> pg \<Rightarrow> 'a result \<times> pg" where
  "exec env stmt s =
     (let m = future s (calls s);
          (t, rs) = run_actions (jsonb_in env) (m_before m) (clock s, rows s);
          now = t + int (m_elapsed m);
          s' = s\<lparr>clock := now, rows := rs, calls := Suc (calls s)\<rparr>
      in case m_fault m of
           Healthy \<Rightarrow> (case stmt m now rs of (res, rs') \<Rightarrow> (res, s'\<lparr>rows := rs'\<rparr>))
         | Rejected code txt \<Rightarrow> (Inl (PgError code txt), s')
         | NotExecuted txt \<Rightarrow> (Inl (ErrorString txt), s')
         | ReplyLost txt \<Rightarrow> (Inl (ErrorString txt), s'\<lparr>rows := snd (stmt m now rs)\<rparr>))"

text \<open>\<^verbatim>\<open>db.QueryRow(...).Scan(...)\<close>: pgx reports an empty result as \<open>ErrNoRows\<close>.\<close>

definition query_row ::
  "env \<Rightarrow> (moment \<Rightarrow> instant \<Rightarrow> table \<Rightarrow> task_row option result \<times> table) \<Rightarrow> pg \<Rightarrow> Task result \<times> pg" where
  "query_row env stmt s =
     (case exec env stmt s of
        (Inl e, s') \<Rightarrow> (Inl e, s')
      | (Inr None, s') \<Rightarrow> (Inl ErrNoRows, s')
      | (Inr (Some r), s') \<Rightarrow> (Inr (scan_task r), s'))"

text \<open>A read: the rows stay, and the statement cannot fail on them.\<close>

definition select :: "(table \<Rightarrow> 'a) \<Rightarrow> moment \<Rightarrow> instant \<Rightarrow> table \<Rightarrow> 'a result \<times> table" where
  "select f m now rs = (Inr (f rs), rs)"

text \<open>The loop \<^verbatim>\<open>for rows.Next() { rows.Scan ... append }\<close> and \<^verbatim>\<open>return tasks, rows.Err()\<close>.\<close>

fun stream :: "rows_fault \<Rightarrow> table \<Rightarrow> (string + task_row) list \<times> go_error option" where
  "stream RowsHealthy rs = (map Inr rs, None)"
| "stream (ScanFails k txt) rs =
     (if k < length rs then map Inr (take k rs) @ [Inl txt] else map Inr rs, None)"
| "stream (RowsBreak k txt) rs = (map Inr (take k rs), Some (ErrorString txt))"

fun scan_loop ::
  "string \<Rightarrow> (string + task_row) list \<Rightarrow> go_error option \<Rightarrow> Task list \<Rightarrow> Task list \<times> go_error option" where
  "scan_loop msg [] err tasks = (tasks, err)"
| "scan_loop msg (Inl txt # xs) err tasks = ([], Some (Wrapped msg (ErrorString txt)))"
| "scan_loop msg (Inr r # xs) err tasks = scan_loop msg xs err (tasks @ [scan_task r])"

definition query_rows ::
  "env \<Rightarrow> string \<Rightarrow> string \<Rightarrow> (moment \<Rightarrow> instant \<Rightarrow> table \<Rightarrow> table result \<times> table) \<Rightarrow> pg \<Rightarrow>
   (Task list \<times> go_error option) \<times> pg" where
  "query_rows env query_msg scan_msg stmt s =
     (case exec env stmt s of
        (Inl e, s') \<Rightarrow> (([], Some (Wrapped query_msg e)), s')
      | (Inr rs, s') \<Rightarrow>
          (let m = future s (calls s);
               (xs, err) = stream (m_rows_fault m) (sort_key (\<lambda>r. m_rank m (c_id r)) rs)
           in (scan_loop scan_msg xs err [], s')))"

section \<open>The methods of PostgresTaskRepo\<close>

definition GetTaskByIdempotencyKey :: "env \<Rightarrow> uuid \<Rightarrow> pg \<Rightarrow> Task result \<times> pg" where
  "GetTaskByIdempotencyKey env key s =
     (case query_row env (select (sql_by_key key)) s of
        (Inl e, s') \<Rightarrow>
          (if is_no_rows e
           then (Inl (Wrapped ''repository: task not found by idempotency key: '' ErrNoRows), s')
           else (Inl (Wrapped ''repository: failed to get task by idempotency key: '' e), s'))
      | (Inr t, s') \<Rightarrow> (Inr t, s'))"

definition GetTaskByID :: "env \<Rightarrow> uuid \<Rightarrow> pg \<Rightarrow> Task result \<times> pg" where
  "GetTaskByID env i s =
     (case query_row env (select (sql_by_id i)) s of
        (Inl e, s') \<Rightarrow>
          (if is_no_rows e then (Inl (Wrapped ''repository: task not found: '' ErrNoRows), s')
           else (Inl (Wrapped ''repository: failed to get task by id: '' e), s'))
      | (Inr t, s') \<Rightarrow> (Inr t, s'))"

definition marshal_payload :: "env \<Rightarrow> (string \<times> json) list \<Rightarrow> string option result" where
  "marshal_payload env p =
     (if length p > 0
      then (case json_Marshal env p of Inl txt \<Rightarrow> Inl (ErrorString txt) | Inr b \<Rightarrow> Inr (Some b))
      else Inr None)"

definition CreateTask :: "env \<Rightarrow> CreateTaskRequest \<Rightarrow> pg \<Rightarrow> Task result \<times> pg" where
  "CreateTask env req s =
     (case uuid_Parse env (req_IdempotencyKey req) of
        Inl txt \<Rightarrow>
          (Inl (Wrapped ''repository: invalid idempotency_key format: '' (ErrorString txt)), s)
      | Inr key \<Rightarrow>
         (case marshal_payload env (req_Payload req) of
            Inl e \<Rightarrow> (Inl (Wrapped ''repository: failed to marshal payload: '' e), s)
          | Inr payload \<Rightarrow>
             (case query_row env (\<lambda>m. sql_insert (jsonb_in env) (m_uuid m) key (req_ServiceName req)
                     (req_UserEmail req) payload (req_ScheduledFor req)) s of
                (Inl e, s') \<Rightarrow>
                  (if is_no_rows e then GetTaskByIdempotencyKey env key s'
                   else if pg_code e = Some ''23505'' then GetTaskByIdempotencyKey env key s'
                   else (Inl (Wrapped ''repository: failed to insert task: '' e), s'))
              | (Inr t, s') \<Rightarrow> (Inr t, s'))))"

text \<open>\<open>nil, nil\<close> is \<open>Inr None\<close>.\<close>

definition ClaimTask :: "env \<Rightarrow> uuid \<Rightarrow> string \<Rightarrow> pg \<Rightarrow> Task option result \<times> pg" where
  "ClaimTask env i worker s =
     (case query_row env (\<lambda>m. sql_claim i worker) s of
        (Inl e, s') \<Rightarrow>
          (if is_no_rows e then (Inr None, s')
           else (Inl (Wrapped ''repository: failed to claim task: '' e), s'))
      | (Inr t, s') \<Rightarrow> (Inr (Some t), s'))"

definition UpdateTaskStatus ::
  "env \<Rightarrow> uuid \<Rightarrow> TaskStatus \<Rightarrow> string option \<Rightarrow> pg \<Rightarrow> go_error option \<times> pg" where
  "UpdateTaskStatus env i status errMsg s =
     (case exec env (\<lambda>m. sql_set_status i status errMsg) s of
        (Inl e, s') \<Rightarrow> (Some (Wrapped ''repository: failed to update task status: '' e), s')
      | (Inr n, s') \<Rightarrow> (None, s'))"

definition GetStaleInProgressTasks ::
  "env \<Rightarrow> int \<Rightarrow> pg \<Rightarrow> (Task list \<times> go_error option) \<times> pg" where
  "GetStaleInProgressTasks env threshold s =
     query_rows env ''repository: failed to query stale tasks: ''
       ''repository: failed to scan stale task: ''
       (\<lambda>m now rs. case pg_interval (interval_in env) (duration_String threshold) of
          Inl e \<Rightarrow> (Inl e, rs) | Inr th \<Rightarrow> (Inr (sql_stale th now rs), rs)) s"

definition RequeueTask :: "env \<Rightarrow> uuid \<Rightarrow> int \<Rightarrow> pg \<Rightarrow> bool result \<times> pg" where
  "RequeueTask env i threshold s =
     (case exec env (\<lambda>m now rs.
         case pg_interval (interval_in env) (duration_String threshold) of
           Inl e \<Rightarrow> (Inl e, rs) | Inr th \<Rightarrow> sql_requeue i th now rs) s of
        (Inl e, s') \<Rightarrow> (Inl (Wrapped ''repository: failed to requeue task: '' e), s')
      | (Inr n, s') \<Rightarrow> (Inr (n > 0), s'))"

definition GetPendingScheduledTasks :: "env \<Rightarrow> pg \<Rightarrow> (Task list \<times> go_error option) \<times> pg" where
  "GetPendingScheduledTasks env s =
     query_rows env ''repository: failed to query scheduled tasks: ''
       ''repository: failed to scan scheduled task: ''
       (\<lambda>m now rs. (Inr (sql_due now rs), rs)) s"

section \<open>The interface TaskRepository\<close>

record 's TaskRepository =
  repo_CreateTask :: "CreateTaskRequest \<Rightarrow> 's \<Rightarrow> Task result \<times> 's"
  repo_GetTaskByID :: "uuid \<Rightarrow> 's \<Rightarrow> Task result \<times> 's"
  repo_GetTaskByIdempotencyKey :: "uuid \<Rightarrow> 's \<Rightarrow> Task result \<times> 's"
  repo_ClaimTask :: "uuid \<Rightarrow> string \<Rightarrow> 's \<Rightarrow> Task option result \<times> 's"
  repo_UpdateTaskStatus :: "uuid \<Rightarrow> TaskStatus \<Rightarrow> string option \<Rightarrow> 's \<Rightarrow> go_error option \<times> 's"
  repo_GetStaleInProgressTasks :: "int \<Rightarrow> 's \<Rightarrow> (Task list \<times> go_error option) \<times> 's"
  repo_RequeueTask :: "uuid \<Rightarrow> int \<Rightarrow> 's \<Rightarrow> bool result \<times> 's"
  repo_GetPendingScheduledTasks :: "'s \<Rightarrow> (Task list \<times> go_error option) \<times> 's"

definition NewPostgresTaskRepo :: "env \<Rightarrow> pg TaskRepository" where
  "NewPostgresTaskRepo env =
     \<lparr>repo_CreateTask = CreateTask env, repo_GetTaskByID = GetTaskByID env,
      repo_GetTaskByIdempotencyKey = GetTaskByIdempotencyKey env,
      repo_ClaimTask = ClaimTask env, repo_UpdateTaskStatus = UpdateTaskStatus env,
      repo_GetStaleInProgressTasks = GetStaleInProgressTasks env,
      repo_RequeueTask = RequeueTask env,
      repo_GetPendingScheduledTasks = GetPendingScheduledTasks env\<rparr>"

end
