(* ===== verification/Repository_Laws.thy ===== *)
theory Repository_Laws
  imports Repository
begin

text \<open>
  What the repository promises.  First the guarantee of every method: whatever it does to
  the store, together with the interference of the other processes, is a run of the
  table's state machine.  Then the contract its clients rely on, as the locale
  \<open>task_repository\<close> over the interface record, and its interpretation on the Postgres
  implementation.
\<close>

section \<open>The store moves by steps of the table\<close>

definition others_satisfy :: "(db_action \<Rightarrow> bool) \<Rightarrow> pg \<Rightarrow> bool" where
  "others_satisfy A s \<longleftrightarrow> (\<forall>i. list_all (\<lambda>p. A (snd p)) (m_before (future s i)))"

definition pg_runs :: "env \<Rightarrow> (db_action \<Rightarrow> bool) \<Rightarrow> pg \<Rightarrow> pg \<Rightarrow> bool" where
  "pg_runs env A s s' \<longleftrightarrow>
     future s' = future s \<and>
     (others_satisfy A s \<longrightarrow> db_steps (jsonb_in env) A (clock s, rows s) (clock s', rows s'))"

lemma pg_runs_refl [simp, intro]: "pg_runs env A s s"
  by (simp add: pg_runs_def)

lemma pg_runs_trans: "pg_runs env A s s' \<Longrightarrow> pg_runs env A s' s'' \<Longrightarrow> pg_runs env A s s''"
  by (auto simp: pg_runs_def others_satisfy_def)

lemma run_actions_steps:
  "list_all (\<lambda>p. A (snd p)) as \<Longrightarrow> db_steps J A st (run_actions J as st)"
proof (induction J as st rule: run_actions.induct)
  case (1 J st)
  then show ?case by simp
next
  case (2 J dt a as t rs)
  have "db_step J A (t, rs) (t + int dt, rs)" by (simp add: db_step.time)
  moreover have "db_step J A (t + int dt, rs) (t + int dt, apply_action J (t + int dt) a rs)"
    using "2.prems" by (simp add: db_step.statement)
  ultimately have "db_steps J A (t, rs) (t + int dt, apply_action J (t + int dt) a rs)"
    by (meson rtranclp.rtrancl_into_rtrancl rtranclp.rtrancl_refl)
  moreover have "db_steps J A (t + int dt, apply_action J (t + int dt) a rs)
      (run_actions J ((dt, a) # as) (t, rs))"
    using "2.IH" "2.prems" by simp
  ultimately show ?case by (rule rtranclp_trans)
qed

lemma pg_runs_any:
  assumes "pg_runs env (\<lambda>_. True) s s'"
  shows "db_steps (jsonb_in env) (\<lambda>_. True) (clock s, rows s) (clock s', rows s')"
  using assms by (simp add: pg_runs_def others_satisfy_def list_all_iff)

lemma pg_runs_table_ok:
  "pg_runs env (\<lambda>_. True) s s' \<Longrightarrow> table_ok (clock s) (rows s) \<Longrightarrow> table_ok (clock s') (rows s')"
  using db_steps_table_ok [OF pg_runs_any] by fastforce

lemma pg_runs_evolves: "pg_runs env (\<lambda>_. True) s s' \<Longrightarrow> evolves (rows s) (rows s')"
  using db_steps_evolves [OF pg_runs_any] by fastforce

text \<open>
  The state in which a statement of \<open>exec\<close> runs: after the others' actions and the time
  that passed.
\<close>

definition before :: "env \<Rightarrow> pg \<Rightarrow> instant \<times> table" where
  "before env s =
     (let m = future s (calls s); (t, rs) = run_actions (jsonb_in env) (m_before m) (clock s, rows s)
      in (t + int (m_elapsed m), rs))"

lemma before_steps:
  assumes "others_satisfy A s"
  shows "db_steps (jsonb_in env) A (clock s, rows s) (before env s)"
proof -
  let ?m = "future s (calls s)"
  obtain t rs where run: "run_actions (jsonb_in env) (m_before ?m) (clock s, rows s) = (t, rs)"
    by fastforce
  have "db_steps (jsonb_in env) A (clock s, rows s) (t, rs)"
    using run_actions_steps [of A "m_before ?m" "jsonb_in env" "(clock s, rows s)"] assms run
    by (simp add: others_satisfy_def)
  moreover have "db_step (jsonb_in env) A (t, rs) (t + int (m_elapsed ?m), rs)"
    by (simp add: db_step.time)
  ultimately show ?thesis using run by (simp add: before_def rtranclp.rtrancl_into_rtrancl)
qed

lemma exec_eq:
  "exec env stmt s =
     (let m = future s (calls s); (now, rs) = before env s;
          s' = s\<lparr>clock := now, rows := rs, calls := Suc (calls s)\<rparr>
      in case m_fault m of
           Healthy \<Rightarrow> (case stmt m now rs of (res, rs') \<Rightarrow> (res, s'\<lparr>rows := rs'\<rparr>))
         | Rejected code txt \<Rightarrow> (Inl (PgError code txt), s')
         | NotExecuted txt \<Rightarrow> (Inl (ErrorString txt), s')
         | ReplyLost txt \<Rightarrow> (Inl (ErrorString txt), s'\<lparr>rows := snd (stmt m now rs)\<rparr>))"
  unfolding exec_def before_def Let_def by (auto split: prod.split)

lemma exec_future [simp]: "future (snd (exec env stmt s)) = future s"
  by (simp add: exec_eq Let_def split: prod.split fault.split)

lemma exec_calls [simp]: "calls (snd (exec env stmt s)) = Suc (calls s)"
  by (simp add: exec_eq Let_def split: prod.split fault.split)

lemma exec_runs:
  assumes "\<And>m now rs. snd (stmt m now rs) = rs \<or>
    (\<exists>a. A a \<and> snd (stmt m now rs) = apply_action (jsonb_in env) now a rs)"
  shows "pg_runs env A s (snd (exec env stmt s))"
proof -
  let ?m = "future s (calls s)"
  obtain now rs where b: "before env s = (now, rs)" by fastforce
  have "db_steps (jsonb_in env) A (now, rs) (now, snd (stmt ?m now rs))"
    using assms [of ?m now rs] db_steps_statement [of A _ "jsonb_in env" now rs]
    by (metis rtranclp.rtrancl_refl)
  moreover have "others_satisfy A s \<Longrightarrow> db_steps (jsonb_in env) A (clock s, rows s) (now, rs)"
    using before_steps [of A s env] b by simp
  ultimately have
    "others_satisfy A s \<Longrightarrow> db_steps (jsonb_in env) A (clock s, rows s) (now, rs)"
    "others_satisfy A s \<Longrightarrow>
      db_steps (jsonb_in env) A (clock s, rows s) (now, snd (stmt ?m now rs))"
    by (auto intro: rtranclp_trans)
  then show ?thesis
    unfolding pg_runs_def exec_eq b by (auto simp: Let_def split: prod.split fault.split)
qed

lemma exec_InrD:
  assumes "exec env stmt s = (Inr x, s')"
  shows "stmt (future s (calls s)) (clock s') (snd (before env s)) = (Inr x, rows s')"
    and "fst (before env s) = clock s'"
  using assms by (auto simp: exec_eq Let_def split: prod.splits fault.splits)

lemma query_row_snd [simp]: "snd (query_row env stmt s) = snd (exec env stmt s)"
  by (simp add: query_row_def split: prod.split sum.split option.split)

lemma query_rows_snd [simp]: "snd (query_rows env q m stmt s) = snd (exec env stmt s)"
  by (simp add: query_rows_def Let_def split: prod.split sum.split)

lemma query_row_sndD: "query_row env stmt s = (res, s') \<Longrightarrow> s' = snd (exec env stmt s)"
  by (metis query_row_snd snd_conv)

lemma query_row_InrD:
  assumes "query_row env stmt s = (Inr t, s')"
  obtains r where "t = scan_task r"
    and "stmt (future s (calls s)) (clock s') (snd (before env s)) = (Inr (Some r), rows s')"
  using assms exec_InrD [of env stmt s]
  by (auto simp: query_row_def split: prod.splits sum.splits option.splits)

section \<open>Rows of a SELECT\<close>

lemma set_insort_key_arranged [simp]: "set (sort_key f xs) = set xs"
  by simp

lemma scan_loop_tasks:
  "scan_loop msg xs err acc = (ts, None) \<Longrightarrow>
   ts = acc @ map (scan_task \<circ> projr) xs \<and> list_all (\<lambda>x. \<exists>r. x = Inr r) xs \<and> err = None"
proof (induction xs arbitrary: acc)
  case Nil
  then show ?case by simp
next
  case (Cons x xs)
  then show ?case using Cons.IH [of "acc @ [scan_task (projr x)]"] by (cases x) simp_all
qed

lemma stream_rows:
  "stream f rs = (xs, None) \<Longrightarrow> list_all (\<lambda>x. \<exists>r. x = Inr r) xs \<Longrightarrow> map (g \<circ> projr) xs = map g rs"
  by (cases f) (auto simp: comp_def split: if_splits)

text \<open>Without an error the tasks are exactly the rows of the result.\<close>

lemma query_rows_tasks:
  assumes "query_rows env q m stmt s = ((ts, None), s')"
  obtains rs where
    "stmt (future s (calls s)) (clock s') (snd (before env s)) = (Inr rs, rows s')"
    "ts = map scan_task (sort_key (\<lambda>r. m_rank (future s (calls s)) (c_id r)) rs)"
proof -
  let ?m = "future s (calls s)"
  from assms obtain rs xs err where
    e: "exec env stmt s = (Inr rs, s')" and
    st: "stream (m_rows_fault ?m) (sort_key (\<lambda>r. m_rank ?m (c_id r)) rs) = (xs, err)" and
    sl: "scan_loop m xs err [] = (ts, None)"
    by (auto simp: query_rows_def Let_def split: prod.splits sum.splits)
  from scan_loop_tasks [OF sl] have "err = None" "list_all (\<lambda>x. \<exists>r. x = Inr r) xs"
    "ts = map (scan_task \<circ> projr) xs" by simp_all
  with stream_rows [of _ _ xs scan_task] st
  have "ts = map scan_task (sort_key (\<lambda>r. m_rank ?m (c_id r)) rs)" by simp
  with exec_InrD(1) [OF e] that show thesis by blast
qed

section \<open>The guarantee of every method\<close>

lemma runs_select: "pg_runs env A s (snd (exec env (select f) s))"
  by (rule exec_runs) (simp add: select_def)

lemma GetTaskByIdempotencyKey_snd:
  "snd (GetTaskByIdempotencyKey env k s) = snd (exec env (select (sql_by_key k)) s)"
  by (auto simp: GetTaskByIdempotencyKey_def dest: query_row_sndD split: prod.split sum.split)

lemma GetTaskByID_snd: "snd (GetTaskByID env i s) = snd (exec env (select (sql_by_id i)) s)"
  by (auto simp: GetTaskByID_def dest: query_row_sndD split: prod.split sum.split)

lemma runs_by_key: "pg_runs env A s (snd (GetTaskByIdempotencyKey env k s))"
  by (simp add: GetTaskByIdempotencyKey_snd runs_select)

lemma runs_by_id: "pg_runs env A s (snd (GetTaskByID env i s))"
  by (simp add: GetTaskByID_snd runs_select)

lemma runs_create:
  assumes "\<And>i k sv e p at. A (Insert i k sv e p at)"
  shows "pg_runs env A s (snd (CreateTask env req s))"
proof -
  have q: "pg_runs env A s (snd (query_row env (\<lambda>m. sql_insert (jsonb_in env) (m_uuid m) k sv e p at) s))"
    for k sv e p at
    unfolding query_row_snd
    by (rule exec_runs) (use assms apply_action.simps(1) in metis)
  have after: "pg_runs env A s (snd (GetTaskByIdempotencyKey env k' s'))"
    if "query_row env (\<lambda>m. sql_insert (jsonb_in env) (m_uuid m) k sv e p at) s = (res, s')"
    for k sv e p at res s' k'
    using pg_runs_trans [OF q [of k sv e p at] runs_by_key [of env A _ k']] that by simp
  have here: "pg_runs env A s s'"
    if "query_row env (\<lambda>m. sql_insert (jsonb_in env) (m_uuid m) k sv e p at) s = (res, s')"
    for k sv e p at res s'
    using q [of k sv e p at] that by simp
  show ?thesis
    unfolding CreateTask_def by (auto split: sum.split prod.split intro: after here)
qed

lemma runs_requeue:
  assumes "\<And>i th. A (Requeue i th)"
  shows "pg_runs env A s (snd (RequeueTask env i threshold s))"
proof -
  let ?stmt = "\<lambda>m now rs. case pg_interval (interval_in env) (duration_String threshold) of
    Inl e \<Rightarrow> (Inl e, rs) | Inr th \<Rightarrow> sql_requeue i th now rs"
  have "snd (?stmt m now rs) = rs \<or>
      (\<exists>a. A a \<and> snd (?stmt m now rs) = apply_action (jsonb_in env) now a rs)" for m now rs
    using assms by (cases "pg_interval (interval_in env) (duration_String threshold)")
      (auto intro: exI [where x = "Requeue i th" for th])
  then have "pg_runs env A s (snd (exec env ?stmt s))" by (rule exec_runs)
  then show ?thesis by (auto simp: RequeueTask_def split: prod.split sum.split)
qed

lemma runs_stale: "pg_runs env A s (snd (GetStaleInProgressTasks env threshold s))"
  unfolding GetStaleInProgressTasks_def query_rows_snd
  by (rule exec_runs) (simp split: sum.split)

lemma runs_due: "pg_runs env A s (snd (GetPendingScheduledTasks env s))"
  unfolding GetPendingScheduledTasks_def query_rows_snd by (rule exec_runs) simp

lemma runs_claim:
  assumes "\<And>i w. A (Claim i w)"
  shows "pg_runs env A s (snd (ClaimTask env i w s))"
proof -
  have "pg_runs env A s (snd (exec env (\<lambda>m. sql_claim i w) s))"
    by (rule exec_runs) (use assms apply_action.simps(2) in metis)
  then show ?thesis
    by (auto simp: ClaimTask_def dest: query_row_sndD split: prod.split sum.split)
qed

lemma runs_update_status:
  assumes "\<And>i st err. A (SetStatus i st err)"
  shows "pg_runs env A s (snd (UpdateTaskStatus env i st err s))"
proof -
  have "pg_runs env A s (snd (exec env (\<lambda>m. sql_set_status i st err) s))"
    by (rule exec_runs) (use assms apply_action.simps(3) in metis)
  then show ?thesis by (auto simp: UpdateTaskStatus_def split: prod.split sum.split)
qed

section \<open>What a successful result says about the stored rows\<close>

lemma by_key_stored:
  "GetTaskByIdempotencyKey env k s = (Inr t, s') \<Longrightarrow>
   \<exists>r\<in>set (rows s'). t = scan_task r \<and> c_key r = k"
  by (auto simp: GetTaskByIdempotencyKey_def select_def sql_by_key_def dest!: find_SomeD
      elim!: query_row_InrD split: prod.splits sum.splits if_splits) blast

lemma by_id_stored:
  "GetTaskByID env i s = (Inr t, s') \<Longrightarrow> \<exists>r\<in>set (rows s'). t = scan_task r \<and> c_id r = i"
  by (auto simp: GetTaskByID_def select_def sql_by_id_def dest!: find_SomeD
      elim!: query_row_InrD split: prod.splits sum.splits if_splits) blast

lemma insert_row_key: "insert_row J now i k sv e p at = Inr r \<Longrightarrow> c_key r = k \<and> c_id r = i"
  by (auto simp: insert_row_def split: sum.splits)

lemma sql_insert_stored:
  "sql_insert J i k sv e p at now rs = (Inr (Some r), rs') \<Longrightarrow> r \<in> set rs' \<and> c_key r = k"
  by (auto simp: sql_insert_def dest!: insert_row_key split: sum.splits if_splits)

lemma insert_stored:
  "query_row env (\<lambda>m. sql_insert J (m_uuid m) k sv e p at) s = (Inr t, s') \<Longrightarrow>
   \<exists>r\<in>set (rows s'). t = scan_task r \<and> c_key r = k"
  by (elim query_row_InrD) (blast dest: sql_insert_stored)

lemma create_stored:
  assumes "CreateTask env req s = (Inr t, s')"
  shows "\<exists>r\<in>set (rows s'). t = scan_task r \<and> uuid_Parse env (req_IdempotencyKey req) = Inr (c_key r)"
  using assms by (fastforce simp: CreateTask_def dest: by_key_stored insert_stored
      split: sum.splits prod.splits if_splits)

lemma sql_requeue_hit:
  assumes "sql_requeue i th now rs = (Inr n, rs')" and "n > 0"
  shows "\<exists>r\<in>set rs'. c_id r = i \<and> c_status r = PENDING \<and> c_locked_at r = None"
proof -
  let ?P = "\<lambda>r. c_id r = i \<and> is_stale th now r"
  from assms have n: "n = length (filter ?P rs)" and
    rs': "rs' = map (\<lambda>r. if ?P r then touch now (release_row r) else r) rs"
    by (auto simp: sql_requeue_def sql_update_def list_all_iff split: if_splits)
  from n assms(2) obtain r where r: "r \<in> set rs" "?P r" by (auto simp: filter_empty_conv)
  then have "touch now (release_row r) \<in> set rs'" unfolding rs' by force
  with r show ?thesis
    by (intro bexI [of _ "touch now (release_row r)"]) (simp_all add: row_transformers)
qed

lemma requeue_pending:
  assumes "RequeueTask env i threshold s = (Inr True, s')"
  shows "\<exists>r\<in>set (rows s'). c_id r = i \<and> c_status r = PENDING \<and> c_locked_at r = None"
proof -
  from assms obtain n where n: "n > 0" and
    e: "exec env (\<lambda>m now rs. case pg_interval (interval_in env) (duration_String threshold) of
         Inl e \<Rightarrow> (Inl e, rs) | Inr th \<Rightarrow> sql_requeue i th now rs) s = (Inr n, s')"
    by (auto simp: RequeueTask_def split: prod.splits sum.splits)
  from exec_InrD(1) [OF e] obtain th where
    "sql_requeue i th (clock s') (snd (before env s)) = (Inr n, rows s')"
    by (auto split: sum.splits)
  with n show ?thesis by (auto dest: sql_requeue_hit)
qed

lemma stale_rows:
  assumes "GetStaleInProgressTasks env threshold s = ((ts, None), s')"
  shows "\<exists>th. interval_in env (duration_String threshold) = Some th \<and>
    set ts = scan_task ` {r \<in> set (rows s'). is_stale th (clock s') r}"
  using assms unfolding GetStaleInProgressTasks_def
  by (auto elim!: query_rows_tasks simp: pg_interval_def sql_stale_def split: sum.splits option.splits)

lemma due_rows:
  assumes "GetPendingScheduledTasks env s = ((ts, None), s')"
  shows "set ts = scan_task ` {r \<in> set (rows s'). is_due (clock s') r}"
  using assms unfolding GetPendingScheduledTasks_def
  by (auto elim!: query_rows_tasks simp: sql_due_def)

section \<open>The contract of the interface\<close>

text \<open>
  The operations the API server calls, and what its components rely on: every call moves
  the store along \<open>reaches\<close>, a created or fetched task is stored, a scan returns exactly
  the rows it is about, and a task reported as requeued is PENDING and unlocked.
\<close>

locale task_repository =
  fixes repo :: "'s TaskRepository"
    and now_of :: "'s \<Rightarrow> instant"
    and table_of :: "'s \<Rightarrow> table"
    and parse_key :: "string \<Rightarrow> string + uuid"
    and reaches :: "'s \<Rightarrow> 's \<Rightarrow> bool"
  assumes reaches_refl: "reaches s s"
    and reaches_trans: "reaches s s' \<Longrightarrow> reaches s' s'' \<Longrightarrow> reaches s s''"
    and create_reaches: "reaches s (snd (repo_CreateTask repo req s))"
    and by_id_reaches: "reaches s (snd (repo_GetTaskByID repo i s))"
    and stale_reaches: "reaches s (snd (repo_GetStaleInProgressTasks repo th s))"
    and requeue_reaches: "reaches s (snd (repo_RequeueTask repo i th s))"
    and due_reaches: "reaches s (snd (repo_GetPendingScheduledTasks repo s))"
    and create_stored: "repo_CreateTask repo req s = (Inr t, s') \<Longrightarrow>
      \<exists>r\<in>set (table_of s'). t = scan_task r \<and> parse_key (req_IdempotencyKey req) = Inr (c_key r)"
    and by_id_stored: "repo_GetTaskByID repo i s = (Inr t, s') \<Longrightarrow>
      \<exists>r\<in>set (table_of s'). t = scan_task r \<and> c_id r = i"
    and stale_in_progress: "repo_GetStaleInProgressTasks repo th s = ((ts, None), s') \<Longrightarrow>
      \<exists>d. set ts = scan_task ` {r \<in> set (table_of s'). is_stale d (now_of s') r}"
    and requeue_pending: "repo_RequeueTask repo i th s = (Inr True, s') \<Longrightarrow>
      \<exists>r\<in>set (table_of s'). c_id r = i \<and> c_status r = PENDING \<and> c_locked_at r = None"
    and due_rows: "repo_GetPendingScheduledTasks repo s = ((ts, None), s') \<Longrightarrow>
      set ts = scan_task ` {r \<in> set (table_of s'). is_due (now_of s') r}"

lemmas repo_simps = NewPostgresTaskRepo_def TaskRepository.simps

text \<open>The Postgres repository keeps the contract whatever else the processes do (\<open>A\<close>).\<close>

lemma postgres_contract:
  assumes "\<And>i k sv e p at. A (Insert i k sv e p at)" and "\<And>i th. A (Requeue i th)"
  shows "task_repository (NewPostgresTaskRepo env) clock rows (uuid_Parse env) (pg_runs env A)"
proof (unfold_locales, goal_cases)
  case (1 s)
  then show ?case by simp
next
  case (2 s s' s'')
  then show ?case by (rule pg_runs_trans)
next
  case (3 s req)
  then show ?case by (simp add: repo_simps runs_create assms)
next
  case (4 s i)
  then show ?case by (simp add: repo_simps runs_by_id)
next
  case (5 s th)
  then show ?case by (simp add: repo_simps runs_stale)
next
  case (6 s i th)
  then show ?case by (simp add: repo_simps runs_requeue assms)
next
  case (7 s)
  then show ?case by (simp add: repo_simps runs_due)
next
  case (8 req s t s')
  then show ?case by (intro create_stored) (simp add: repo_simps)
next
  case (9 i s t s')
  then show ?case by (intro by_id_stored) (simp add: repo_simps)
next
  case (10 th s ts s')
  then show ?case using stale_rows [of env th s ts s'] by (auto simp: repo_simps)
next
  case (11 i th s s')
  then show ?case by (intro requeue_pending) (simp add: repo_simps)
next
  case (12 s ts s')
  then show ?case by (intro due_rows) (simp add: repo_simps)
qed

interpretation pg_repo: task_repository
  "NewPostgresTaskRepo env" clock rows "uuid_Parse env" "pg_runs env no_set_status" for env
  by (rule postgres_contract) simp_all

end
