(* ===== verification/World.thy ===== *)
theory World
  imports Repository_Laws
begin

text \<open>
  The state of the API server process: the task store behind the repository interface, the
  Redis server behind its client, the Prometheus collectors of
  \<^verbatim>\<open>internal/metrics/metrics.go\<close>, and the messages logged through \<^verbatim>\<open>slog\<close>.
\<close>

text \<open>
  The collectors.  A counter vector is a map from its label values; the histogram is the
  list of its observations' labels (method, path, status code).
\<close>

record metrics =
  TasksCreatedTotal :: "string \<Rightarrow> nat"
  TasksCompletedTotal :: "string \<times> string \<Rightarrow> nat"
  TasksInProgress :: int
  HTTPRequestDuration :: "(string \<times> string \<times> string) list"

definition new_metrics :: metrics where
  "new_metrics =
     \<lparr>TasksCreatedTotal = (\<lambda>_. 0), TasksCompletedTotal = (\<lambda>_. 0), TasksInProgress = 0,
      HTTPRequestDuration = []\<rparr>"

datatype log_entry = LogInfo string | LogWarn string | LogError string

record ('s, 'q) world =
  store :: 's
  redis :: 'q
  meters :: metrics
  logs :: "log_entry list"

definition log :: "log_entry \<Rightarrow> ('s, 'q) world \<Rightarrow> ('s, 'q) world" where
  "log e w = w\<lparr>logs := logs w @ [e]\<rparr>"

lemma log_frame [simp, frame]:
  "store (log e w) = store w" "redis (log e w) = redis w" "meters (log e w) = meters w"
  by (simp_all add: log_def)

end
