(* ===== verification/Queue.thy ===== *)
theory Queue
  imports World
begin

text \<open>
  \<^verbatim>\<open>internal/queue\<close>: the producer, the requeuer and the scheduler.  The Redis server is a
  parameter: its LPUSH takes the key, the value and the server's state and gives an error
  or none, and the next state.  \<open>lpush_law\<close> states what Redis documents of LPUSH on a list.
\<close>

section \<open>The producer\<close>

type_synonym 'q redis_client = "string \<Rightarrow> string \<Rightarrow> 'q \<Rightarrow> string option \<times> 'q"

definition TaskQueueKey :: string where
  "TaskQueueKey = ''trial-terminator:tasks:pending''"

record 'q Producer =
  client :: "'q redis_client"

definition NewProducer :: "'q redis_client \<Rightarrow> 'q Producer" where
  "NewProducer c = \<lparr>client = c\<rparr>"

definition Enqueue :: "env \<Rightarrow> 'q Producer \<Rightarrow> uuid \<Rightarrow> 'q \<Rightarrow> go_error option \<times> 'q" where
  "Enqueue env p taskID q =
     (case client p TaskQueueKey (uuid_String env taskID) q of
        (Some txt, q') \<Rightarrow>
          (Some (Wrapped (''producer: failed to enqueue task '' @ uuid_String env taskID @ '': '')
             (ErrorString txt)), q')
      | (None, q') \<Rightarrow> (None, q'))"

text \<open>
  LPUSH inserts the value at the head of the list and touches no other key.  After an
  error the value may or may not have been inserted (the reply can be lost).
\<close>

definition lpush_law :: "'q redis_client \<Rightarrow> ('q \<Rightarrow> string \<Rightarrow> string list) \<Rightarrow> bool" where
  "lpush_law c items \<longleftrightarrow>
     (\<forall>k v q. (\<forall>k'. k' \<noteq> k \<longrightarrow> items (snd (c k v q)) k' = items q k') \<and>
        (case fst (c k v q) of
           None \<Rightarrow> items (snd (c k v q)) k = v # items q k
         | Some _ \<Rightarrow> items (snd (c k v q)) k \<in> {items q k, v # items q k}))"

lemma lpush_lawD:
  assumes "lpush_law c items" and "c k v q = (e, q')"
  shows "e = None \<Longrightarrow> items q' k = v # items q k"
    and "items q' k = items q k \<or> items q' k = v # items q k"
    and "k' \<noteq> k \<Longrightarrow> items q' k' = items q k'"
proof -
  have law: "(\<forall>k'. k' \<noteq> k \<longrightarrow> items (snd (c k v q)) k' = items q k') \<and>
      (case fst (c k v q) of
         None \<Rightarrow> items (snd (c k v q)) k = v # items q k
       | Some _ \<Rightarrow> items (snd (c k v q)) k \<in> {items q k, v # items q k})"
    using assms(1) unfolding lpush_law_def by blast
  then show "e = None \<Longrightarrow> items q' k = v # items q k"
    "items q' k = items q k \<or> items q' k = v # items q k"
    "k' \<noteq> k \<Longrightarrow> items q' k' = items q k'"
    unfolding assms(2) by (auto split: option.splits)
qed

lemma Enqueue_lpush:
  "Enqueue env p i q = (e, q') \<Longrightarrow>
   \<exists>e'. client p TaskQueueKey (uuid_String env i) q = (e', q') \<and> (e = None \<longleftrightarrow> e' = None)"
  by (auto simp: Enqueue_def split: prod.splits option.splits)

text \<open>The items of the pending list, and what enqueueing does to them.\<close>

definition pending :: "('q \<Rightarrow> string \<Rightarrow> string list) \<Rightarrow> 'q \<Rightarrow> string list" where
  "pending items q = items q TaskQueueKey"

lemma Enqueue_ok:
  "lpush_law (client p) items \<Longrightarrow> Enqueue env p i q = (None, q') \<Longrightarrow>
   pending items q' = uuid_String env i # pending items q"
  unfolding pending_def by (drule Enqueue_lpush) (auto intro: lpush_lawD(1))

lemma Enqueue_any:
  "lpush_law (client p) items \<Longrightarrow> Enqueue env p i q = (e, q') \<Longrightarrow>
   pending items q' = pending items q \<or> pending items q' = uuid_String env i # pending items q"
  unfolding pending_def by (drule Enqueue_lpush) (auto dest: lpush_lawD(2))

section \<open>The requeuer\<close>

definition staleLockThreshold :: int where "staleLockThreshold = 30 * Second"
definition requeueInterval :: int where "requeueInterval = 10 * Second"

record ('s, 'q) Requeuer =
  rq_repo :: "'s TaskRepository"
  rq_producer :: "'q Producer"

definition NewRequeuer :: "'s TaskRepository \<Rightarrow> 'q redis_client \<Rightarrow> ('s, 'q) Requeuer" where
  "NewRequeuer repo c = \<lparr>rq_repo = repo, rq_producer = NewProducer c\<rparr>"

text \<open>The body of the loop over the stale tasks.\<close>

definition requeue_one :: "env \<Rightarrow> ('s, 'q) Requeuer \<Rightarrow> Task \<Rightarrow> ('s, 'q) world \<Rightarrow> ('s, 'q) world" where
  "requeue_one env r task w =
     (case repo_RequeueTask (rq_repo r) (ID task) staleLockThreshold (store w) of
        (Inl e, s') \<Rightarrow> log (LogError ''requeue: failed to reset task'') (w\<lparr>store := s'\<rparr>)
      | (Inr requeued, s') \<Rightarrow>
          (let w' = w\<lparr>store := s'\<rparr> in
           if \<not> requeued then w'
           else (case Enqueue env (rq_producer r) (ID task) (redis w') of
               (Some e, q') \<Rightarrow> log (LogError ''requeue: failed to re-enqueue task'') (w'\<lparr>redis := q'\<rparr>)
             | (None, q') \<Rightarrow> log (LogInfo ''requeue: task reclaimed'') (w'\<lparr>redis := q'\<rparr>))))"

fun requeue_all ::
  "env \<Rightarrow> ('s, 'q) Requeuer \<Rightarrow> Task list \<Rightarrow> ('s, 'q) world \<Rightarrow> ('s, 'q) world" where
  "requeue_all env r [] w = w"
| "requeue_all env r (task # tasks) w = requeue_all env r tasks (requeue_one env r task w)"

definition Requeuer_runOnce :: "env \<Rightarrow> ('s, 'q) Requeuer \<Rightarrow> ('s, 'q) world \<Rightarrow> ('s, 'q) world" where
  "Requeuer_runOnce env r w =
     (case repo_GetStaleInProgressTasks (rq_repo r) staleLockThreshold (store w) of
        ((tasks, Some e), s') \<Rightarrow>
          log (LogError ''requeue: failed to get stale tasks'') (w\<lparr>store := s'\<rparr>)
      | ((tasks, None), s') \<Rightarrow>
          (let w' = w\<lparr>store := s'\<rparr> in
           if tasks = [] then w'
           else requeue_all env r tasks (log (LogWarn ''requeue: found stale tasks'') w')))"

text \<open>
  The loop over \<^verbatim>\<open>select\<close>: what it receives is a sequence of ticks and, at some point, the
  cancellation of the context, after which nothing runs.  The result says whether the
  loop is still waiting for events.
\<close>

datatype loop_event = CtxDone | TickerC

fun Requeuer_loop_from ::
  "env \<Rightarrow> ('s, 'q) Requeuer \<Rightarrow> loop_event list \<Rightarrow> ('s, 'q) world \<Rightarrow> ('s, 'q) world \<times> bool" where
  "Requeuer_loop_from env r [] w = (w, True)"
| "Requeuer_loop_from env r (CtxDone # es) w = (log (LogInfo ''requeue loop stopped'') w, False)"
| "Requeuer_loop_from env r (TickerC # es) w = Requeuer_loop_from env r es (Requeuer_runOnce env r w)"

definition Requeuer_loop ::
  "env \<Rightarrow> ('s, 'q) Requeuer \<Rightarrow> loop_event list \<Rightarrow> ('s, 'q) world \<Rightarrow> ('s, 'q) world \<times> bool" where
  "Requeuer_loop env r es w =
     Requeuer_loop_from env r es (log (LogInfo ''requeue loop started'') w)"

section \<open>The scheduler\<close>

definition schedulerInterval :: int where "schedulerInterval = 1 * Minute"

record ('s, 'q) Scheduler =
  sc_repo :: "'s TaskRepository"
  sc_producer :: "'q Producer"

definition NewScheduler :: "'s TaskRepository \<Rightarrow> 'q redis_client \<Rightarrow> ('s, 'q) Scheduler" where
  "NewScheduler repo c = \<lparr>sc_repo = repo, sc_producer = NewProducer c\<rparr>"

definition schedule_one :: "env \<Rightarrow> ('s, 'q) Scheduler \<Rightarrow> Task \<Rightarrow> ('s, 'q) world \<Rightarrow> ('s, 'q) world" where
  "schedule_one env sc task w =
     (case Enqueue env (sc_producer sc) (ID task) (redis w) of
        (Some e, q') \<Rightarrow> log (LogError ''scheduler: failed to enqueue task'') (w\<lparr>redis := q'\<rparr>)
      | (None, q') \<Rightarrow> log (LogInfo ''scheduler: task enqueued'') (w\<lparr>redis := q'\<rparr>))"

fun schedule_all ::
  "env \<Rightarrow> ('s, 'q) Scheduler \<Rightarrow> Task list \<Rightarrow> ('s, 'q) world \<Rightarrow> ('s, 'q) world" where
  "schedule_all env sc [] w = w"
| "schedule_all env sc (task # tasks) w = schedule_all env sc tasks (schedule_one env sc task w)"

definition Scheduler_runOnce :: "env \<Rightarrow> ('s, 'q) Scheduler \<Rightarrow> ('s, 'q) world \<Rightarrow> ('s, 'q) world" where
  "Scheduler_runOnce env sc w =
     (case repo_GetPendingScheduledTasks (sc_repo sc) (store w) of
        ((tasks, Some e), s') \<Rightarrow>
          log (LogError ''scheduler: failed to query due tasks'') (w\<lparr>store := s'\<rparr>)
      | ((tasks, None), s') \<Rightarrow>
          (let w' = w\<lparr>store := s'\<rparr> in
           if length tasks = 0 then w'
           else schedule_all env sc tasks (log (LogInfo ''scheduler: enqueueing due tasks'') w')))"

fun Scheduler_loop_from ::
  "env \<Rightarrow> ('s, 'q) Scheduler \<Rightarrow> loop_event list \<Rightarrow> ('s, 'q) world \<Rightarrow> ('s, 'q) world \<times> bool" where
  "Scheduler_loop_from env sc [] w = (w, True)"
| "Scheduler_loop_from env sc (CtxDone # es) w = (log (LogInfo ''scheduler loop stopped'') w, False)"
| "Scheduler_loop_from env sc (TickerC # es) w =
     Scheduler_loop_from env sc es (Scheduler_runOnce env sc w)"

definition Scheduler_loop ::
  "env \<Rightarrow> ('s, 'q) Scheduler \<Rightarrow> loop_event list \<Rightarrow> ('s, 'q) world \<Rightarrow> ('s, 'q) world \<times> bool" where
  "Scheduler_loop env sc es w =
     Scheduler_loop_from env sc es
       (Scheduler_runOnce env sc (log (LogInfo ''scheduler loop started'') w))"

end
