(* ===== verification/Queue_Laws.thy ===== *)
theory Queue_Laws
  imports Queue
begin

text \<open>
  Facts about the requeuer and the scheduler.  The first part is proved inside the contract
  \<open>task_repository\<close>, for any repository that keeps it and any interference; the second
  is the exact effect of one pass over a healthy Postgres store.
\<close>

section \<open>Under the contract of the repository\<close>

text \<open>Task \<open>i\<close> waits in the table, unlocked.\<close>

definition waiting :: "uuid \<Rightarrow> table \<Rightarrow> bool" where
  "waiting i rs \<longleftrightarrow> list_ex (\<lambda>r. c_id r = i \<and> c_status r = PENDING \<and> c_locked_at r = None) rs"

definition due_ids :: "instant \<Rightarrow> table \<Rightarrow> uuid set" where
  "due_ids now rs = c_id ` {r \<in> set rs. is_due now r}"

lemma requeue_one_meters [simp]: "meters (requeue_one env r task w) = meters w"
  by (auto simp: requeue_one_def Let_def split: prod.split sum.split option.split)

lemma requeue_all_meters [simp]: "meters (requeue_all env r tasks w) = meters w"
  by (induction tasks arbitrary: w) simp_all

lemma Requeuer_meters: "meters (Requeuer_runOnce env r w) = meters w"
  by (auto simp: Requeuer_runOnce_def Let_def split: prod.split option.split)

lemma schedule_one_frame [simp]:
  "store (schedule_one env sc task w) = store w" "meters (schedule_one env sc task w) = meters w"
  by (auto simp: schedule_one_def split: prod.split option.split)

lemma schedule_all_frame [simp]:
  "store (schedule_all env sc tasks w) = store w" "meters (schedule_all env sc tasks w) = meters w"
  by (induction tasks arbitrary: w) simp_all

lemma Scheduler_meters: "meters (Scheduler_runOnce env sc w) = meters w"
  by (auto simp: Scheduler_runOnce_def Let_def split: prod.split option.split)

lemma schedule_one_pushes:
  assumes "lpush_law (client (sc_producer sc)) items"
  shows "pending items (redis (schedule_one env sc task w)) = pending items (redis w) \<or>
    pending items (redis (schedule_one env sc task w)) =
      uuid_String env (ID task) # pending items (redis w)"
  using Enqueue_any [OF assms, of env "ID task" "redis w"]
  by (auto simp: schedule_one_def split: prod.split option.split)

lemma schedule_all_pushes:
  assumes law: "lpush_law (client (sc_producer sc)) items"
  shows "\<exists>pushed. pending items (redis (schedule_all env sc tasks w)) =
      map (uuid_String env) pushed @ pending items (redis w) \<and> set pushed \<subseteq> ID ` set tasks"
proof (induction tasks arbitrary: w)
  case Nil
  then show ?case by simp
next
  case (Cons task tasks)
  obtain pushed where p: "pending items (redis (schedule_all env sc tasks (schedule_one env sc task w))) =
      map (uuid_String env) pushed @ pending items (redis (schedule_one env sc task w))"
    "set pushed \<subseteq> ID ` set tasks"
    using Cons.IH by blast
  from schedule_one_pushes [OF law, of env task w] show ?case
  proof
    assume "pending items (redis (schedule_one env sc task w)) = pending items (redis w)"
    with p show ?thesis by auto
  next
    assume "pending items (redis (schedule_one env sc task w)) =
      uuid_String env (ID task) # pending items (redis w)"
    with p show ?thesis by (intro exI [where x = "pushed @ [ID task]"]) auto
  qed
qed

lemma schedule_all_exact:
  assumes law: "lpush_law (client (sc_producer sc)) items"
    and up: "\<And>k v q. fst (client (sc_producer sc) k v q) = None"
  shows "pending items (redis (schedule_all env sc tasks w)) =
    rev (map (uuid_String env \<circ> ID) tasks) @ pending items (redis w)"
proof (induction tasks arbitrary: w)
  case Nil
  then show ?case by simp
next
  case (Cons task tasks)
  obtain e q' where e: "Enqueue env (sc_producer sc) (ID task) (redis w) = (e, q')" by fastforce
  from Enqueue_lpush [OF e] up have "e = None" by (metis fst_conv)
  with e Enqueue_ok [OF law] Cons.IH show ?case by (simp add: schedule_one_def)
qed

context task_repository
begin

lemma requeue_one_reaches:
  "rq_repo r = repo \<Longrightarrow> reaches (store w) (store (requeue_one env r task w))"
  using requeue_reaches [of "store w" "ID task" staleLockThreshold]
  by (auto simp: requeue_one_def Let_def split: prod.split sum.split option.split)

lemma requeue_all_reaches:
  "rq_repo r = repo \<Longrightarrow> reaches (store w) (store (requeue_all env r tasks w))"
proof (induction tasks arbitrary: w)
  case Nil
  then show ?case by (simp add: reaches_refl)
next
  case (Cons task tasks)
  then show ?case using requeue_one_reaches reaches_trans by (metis requeue_all.simps(2))
qed

lemma Requeuer_reaches:
  assumes "rq_repo r = repo"
  shows "reaches (store w) (store (Requeuer_runOnce env r w))"
proof -
  obtain ts e s' where scan: "repo_GetStaleInProgressTasks repo staleLockThreshold (store w) = ((ts, e), s')"
    by (metis surj_pair)
  then have 1: "reaches (store w) s'" using stale_reaches [of "store w" staleLockThreshold] by simp
  have "reaches s' (store (requeue_all env r ts (w\<lparr>store := s', logs := l\<rparr>)))" for l
    using requeue_all_reaches [OF assms, of "w\<lparr>store := s', logs := l\<rparr>"] by simp
  with 1 scan assms show ?thesis
    by (auto simp: Requeuer_runOnce_def Let_def log_def split: option.split intro: reaches_trans)
qed

lemma Scheduler_reaches:
  assumes "sc_repo sc = repo"
  shows "reaches (store w) (store (Scheduler_runOnce env sc w))"
  using due_reaches [of "store w"] assms
  by (auto simp: Scheduler_runOnce_def Let_def split: prod.split option.split)

text \<open>
  A pass of the requeuer only pushes tasks it has itself put back to PENDING: for each
  pushed id there is a state of the store during the pass in which the task waits.
\<close>

lemma requeue_one_pushes:
  assumes law: "lpush_law (client (rq_producer r)) items" and "rq_repo r = repo"
  shows "pending items (redis (requeue_one env r task w)) = pending items (redis w) \<or>
    (pending items (redis (requeue_one env r task w)) =
       uuid_String env (ID task) # pending items (redis w) \<and>
     waiting (ID task) (table_of (store (requeue_one env r task w))))"
  using Enqueue_any [OF law, of env "ID task" "redis w"] assms(2)
    requeue_pending [of "ID task" staleLockThreshold "store w"]
  by (auto simp: requeue_one_def Let_def waiting_def list_ex_iff split: prod.split sum.split option.split)

lemma requeue_all_pushes:
  assumes law: "lpush_law (client (rq_producer r)) items" and repo: "rq_repo r = repo"
  shows "\<exists>pushed. pending items (redis (requeue_all env r tasks w)) =
      map (uuid_String env) pushed @ pending items (redis w) \<and>
    (\<forall>i\<in>set pushed. \<exists>s. reaches (store w) s \<and> reaches s (store (requeue_all env r tasks w)) \<and>
       waiting i (table_of s))"
proof (induction tasks arbitrary: w)
  case Nil
  then show ?case by simp
next
  case (Cons task tasks)
  let ?w = "requeue_one env r task w"
  obtain pushed where p: "pending items (redis (requeue_all env r tasks ?w)) =
      map (uuid_String env) pushed @ pending items (redis ?w)"
    and each: "\<And>i. i \<in> set pushed \<Longrightarrow> \<exists>s. reaches (store ?w) s \<and>
      reaches s (store (requeue_all env r tasks ?w)) \<and> waiting i (table_of s)"
    using Cons.IH [of ?w] by blast
  have step: "reaches (store w) (store ?w)"
    and rest: "reaches (store ?w) (store (requeue_all env r tasks ?w))"
    using requeue_one_reaches [OF repo] requeue_all_reaches [OF repo] by blast+
  have each': "\<exists>s. reaches (store w) s \<and> reaches s (store (requeue_all env r tasks ?w)) \<and>
      waiting i (table_of s)" if "i \<in> set pushed" for i
    using each [OF that] step reaches_trans by blast
  from requeue_one_pushes [OF law repo, of env task w] show ?case
  proof
    assume "pending items (redis ?w) = pending items (redis w)"
    with p each' show ?thesis by auto
  next
    assume "pending items (redis ?w) = uuid_String env (ID task) # pending items (redis w) \<and>
      waiting (ID task) (table_of (store ?w))"
    with p each' step rest show ?thesis
      by (intro exI [where x = "pushed @ [ID task]"]) auto
  qed
qed

lemma Requeuer_pushes:
  assumes law: "lpush_law (client (rq_producer r)) items" and repo: "rq_repo r = repo"
  shows "\<exists>pushed. pending items (redis (Requeuer_runOnce env r w)) =
      map (uuid_String env) pushed @ pending items (redis w) \<and>
    (\<forall>i\<in>set pushed. \<exists>s. reaches (store w) s \<and> reaches s (store (Requeuer_runOnce env r w)) \<and>
       waiting i (table_of s))"
proof -
  obtain ts e s' where scan: "repo_GetStaleInProgressTasks repo staleLockThreshold (store w) = ((ts, e), s')"
    by (metis surj_pair)
  then have 1: "reaches (store w) s'" using stale_reaches [of "store w" staleLockThreshold] by simp
  show ?thesis
  proof (cases "e = None \<and> ts \<noteq> []")
    case True
    let ?w = "log (LogWarn ''requeue: found stale tasks'') (w\<lparr>store := s'\<rparr>)"
    have eq: "Requeuer_runOnce env r w = requeue_all env r ts ?w"
      using True scan repo by (simp add: Requeuer_runOnce_def)
    show ?thesis
      using requeue_all_pushes [OF law repo, of env ts ?w] reaches_trans [OF 1]
      unfolding eq by simp blast
  next
    case False
    then have "redis (Requeuer_runOnce env r w) = redis w"
      using scan repo by (auto simp: Requeuer_runOnce_def Let_def split: option.split)
    then show ?thesis by (intro exI [where x = "[]"]) simp
  qed
qed

text \<open>A pass of the scheduler pushes tasks that are due in the state it scanned.\<close>

lemma Scheduler_pushes:
  assumes law: "lpush_law (client (sc_producer sc)) items" and repo: "sc_repo sc = repo"
  shows "\<exists>pushed. pending items (redis (Scheduler_runOnce env sc w)) =
      map (uuid_String env) pushed @ pending items (redis w) \<and>
    set pushed \<subseteq> due_ids (now_of (store (Scheduler_runOnce env sc w)))
      (table_of (store (Scheduler_runOnce env sc w)))"
proof -
  obtain ts e s' where scan: "repo_GetPendingScheduledTasks repo (store w) = ((ts, e), s')"
    by (metis surj_pair)
  show ?thesis
  proof (cases "e = None \<and> ts \<noteq> []")
    case True
    let ?w = "log (LogInfo ''scheduler: enqueueing due tasks'') (w\<lparr>store := s'\<rparr>)"
    have eq: "Scheduler_runOnce env sc w = schedule_all env sc ts ?w"
      using True scan repo by (simp add: Scheduler_runOnce_def)
    have "ID ` set ts = due_ids (now_of s') (table_of s')"
      using due_rows [of "store w" ts s'] scan True
      by (simp add: due_ids_def image_image scan_task_def)
    with schedule_all_pushes [OF law, of env ts ?w] show ?thesis unfolding eq by simp
  next
    case False
    then have "redis (Scheduler_runOnce env sc w) = redis w"
      using scan repo by (auto simp: Scheduler_runOnce_def Let_def split: option.split)
    then show ?thesis by (intro exI [where x = "[]"]) simp
  qed
qed

text \<open>With Redis answering, it pushes every due task, in the order of the scan.\<close>

lemma Scheduler_exact:
  assumes law: "lpush_law (client (sc_producer sc)) items" and repo: "sc_repo sc = repo"
    and up: "\<And>k v q. fst (client (sc_producer sc) k v q) = None"
    and scan: "repo_GetPendingScheduledTasks repo (store w) = ((ts, None), s')"
  shows "pending items (redis (Scheduler_runOnce env sc w)) =
      rev (map (uuid_String env \<circ> ID) ts) @ pending items (redis w)"
    and "ID ` set ts = due_ids (now_of s') (table_of s')"
proof -
  show "pending items (redis (Scheduler_runOnce env sc w)) =
      rev (map (uuid_String env \<circ> ID) ts) @ pending items (redis w)"
    using scan repo schedule_all_exact [OF law up]
    by (simp add: Scheduler_runOnce_def Let_def)
  show "ID ` set ts = due_ids (now_of s') (table_of s')"
    using due_rows [OF scan] by (simp add: due_ids_def image_image scan_task_def)
qed

end

end
