(* ===== verification/Recovery.thy ===== *)
theory Recovery
  imports Queue_Laws
begin

text \<open>
  The exact effect of a requeuer pass over a healthy store, when the next pass finds a
  crashed worker's task, and which tasks no pass ever finds.
\<close>

section \<open>A healthy store\<close>

text \<open>No faults and no interference; time may pass between statements.\<close>

definition healthy :: "pg \<Rightarrow> bool" where
  "healthy s \<longleftrightarrow> (\<forall>i. m_before (future s i) = [] \<and> m_fault (future s i) = Healthy \<and>
     m_rows_fault (future s i) = RowsHealthy)"

lemma exec_healthy:
  assumes "healthy s"
  shows "exec env stmt s =
     (let m = future s (calls s); now = clock s + int (m_elapsed m) in
      case stmt m now (rows s) of (res, rs) \<Rightarrow>
        (res, s\<lparr>clock := now, rows := rs, calls := Suc (calls s)\<rparr>))"
  using assms by (simp add: exec_def healthy_def Let_def split: prod.split)

lemma healthy_update [simp]:
  "healthy (s\<lparr>clock := t, rows := rs, calls := n\<rparr>) = healthy s"
  by (simp add: healthy_def)

lemma is_stale_later: "is_stale th now r \<Longrightarrow> now \<le> now' \<Longrightarrow> is_stale th now' r"
  by (auto simp: is_stale_def split: option.splits)

section \<open>One requeue\<close>

definition released :: "uuid set \<Rightarrow> (uuid \<Rightarrow> instant) \<Rightarrow> table \<Rightarrow> table" where
  "released I T rs = map (\<lambda>r. if c_id r \<in> I then touch (T (c_id r)) (release_row r) else r) rs"

lemma released_empty [simp]: "released {} T rs = rs"
  by (simp add: released_def)

lemma c_id_released_row [simp]: "c_id (touch t (release_row r)) = c_id r"
  by (simp add: row_transformers)

lemma released_ids [simp]: "map c_id (released I T rs) = map c_id rs"
  by (simp add: released_def)

lemma released_released:
  "I \<inter> I' = {} \<Longrightarrow> released I' T' (released I T rs) = released (I \<union> I') (\<lambda>i. if i \<in> I' then T' i else T i) rs"
  by (auto simp: released_def)

lemma released_cong: "(\<And>i. i \<in> I \<Longrightarrow> T i = T' i) \<Longrightarrow> released I T rs = released I T' rs"
  by (auto simp: released_def)

lemma sql_requeue_one:
  assumes "distinct (map c_id rs)" and "r \<in> set rs" and "is_stale th now r"
  shows "sql_requeue (c_id r) th now rs = (Inr 1, released {c_id r} (\<lambda>_. now) rs)"
proof -
  let ?P = "\<lambda>x. c_id x = c_id r \<and> is_stale th now x"
  have only: "?P x \<longleftrightarrow> c_id x = c_id r" if "x \<in> set rs" for x
    using distinct_key_eq [OF assms(1) that assms(2)] assms(3) by auto
  have "filter ?P rs = [r]"
    using assms by (intro filter_key_unique [where f = c_id]) auto
  moreover have "map (\<lambda>x. if ?P x then touch now (release_row x) else x) rs = released {c_id r} (\<lambda>_. now) rs"
    unfolding released_def using only by (intro map_cong) auto
  ultimately show ?thesis by (simp add: sql_requeue_def sql_update_def list_all_iff)
qed

text \<open>The requeuer over the Postgres repository and an answering Redis.\<close>

definition interval_30s :: "env \<Rightarrow> bool" where
  "interval_30s env \<longleftrightarrow> interval_in env ''30s'' = Some 30000000"

definition redis_up :: "'q redis_client \<Rightarrow> bool" where
  "redis_up c \<longleftrightarrow> (\<forall>k v q. fst (c k v q) = None)"

lemma Enqueue_up:
  assumes "redis_up (client p)" and "lpush_law (client p) items"
  obtains q' where "Enqueue env p i q = (None, q')"
    and "pending items q' = uuid_String env i # pending items q"
proof -
  obtain e q' where e: "Enqueue env p i q = (e, q')" by fastforce
  from Enqueue_lpush [OF e] assms(1) have "e = None" by (metis fst_conv redis_up_def)
  with e Enqueue_ok [OF assms(2)] that show thesis by blast
qed

lemma RequeueTask_healthy:
  assumes "healthy s" and "interval_30s env" and "distinct (map c_id (rows s))" and "r \<in> set (rows s)"
    and "is_stale 30000000 (clock s) r"
  defines "now \<equiv> clock s + int (m_elapsed (future s (calls s)))"
  shows "RequeueTask env (c_id r) staleLockThreshold s =
    (Inr True, s\<lparr>clock := now, rows := released {c_id r} (\<lambda>_. now) (rows s), calls := Suc (calls s)\<rparr>)"
  using assms(2) is_stale_later [OF assms(5), of now] sql_requeue_one [OF assms(3,4), of 30000000 now]
  by (simp add: RequeueTask_def exec_healthy [OF assms(1)] staleLockThreshold_def
      duration_String_30s interval_30s_def pg_interval_def Let_def now_def)

lemma requeue_one_healthy:
  fixes c :: "'q redis_client" and w :: "(pg, 'q) world"
  assumes "healthy (store w)" and "interval_30s env" and "redis_up c" and "lpush_law c items"
    and "distinct (map c_id (rows (store w)))" and "r \<in> set (rows (store w))"
    and "is_stale 30000000 (clock (store w)) r" and "ID task = c_id r"
  obtains w' now where
    "requeue_one env (NewRequeuer (NewPostgresTaskRepo env) c) task w = w'"
    "healthy (store w')" "clock (store w) \<le> clock (store w')" "now = clock (store w')"
    "rows (store w') = released {c_id r} (\<lambda>_. now) (rows (store w))"
    "pending items (redis w') = uuid_String env (c_id r) # pending items (redis w)"
proof -
  let ?s = "store w"
  let ?now = "clock ?s + int (m_elapsed (future ?s (calls ?s)))"
  let ?s' = "?s\<lparr>clock := ?now, rows := released {c_id r} (\<lambda>_. ?now) (rows ?s), calls := Suc (calls ?s)\<rparr>"
  note rq = RequeueTask_healthy [OF assms(1,2,5-7)]
  obtain q' where q': "Enqueue env \<lparr>client = c\<rparr> (c_id r) (redis w) = (None, q')"
    "pending items q' = uuid_String env (c_id r) # pending items (redis w)"
    using Enqueue_up [of "\<lparr>client = c\<rparr>" items env "c_id r" "redis w"] assms(3,4) by auto
  let ?w' = "log (LogInfo ''requeue: task reclaimed'') (w\<lparr>store := ?s', redis := q'\<rparr>)"
  have "requeue_one env (NewRequeuer (NewPostgresTaskRepo env) c) task w = ?w'"
    using rq q'(1) assms(8)
    by (simp add: requeue_one_def NewRequeuer_def NewProducer_def NewPostgresTaskRepo_def Let_def)
  then show thesis
    by (rule that [of _ ?now]) (use assms(1) q'(2) in simp_all)
qed

text \<open>The loop over distinct stale tasks releases and pushes each of them.\<close>

lemma requeue_all_healthy:
  fixes c :: "'q redis_client" and w :: "(pg, 'q) world"
  assumes env: "interval_30s env" "redis_up c" "lpush_law c items"
    and "healthy (store w)" and "distinct (map c_id (rows (store w)))" and "distinct (map ID tasks)"
    and "\<And>task. task \<in> set tasks \<Longrightarrow>
      \<exists>r\<in>set (rows (store w)). c_id r = ID task \<and> is_stale 30000000 (clock (store w)) r"
  shows "\<exists>T. rows (store (requeue_all env (NewRequeuer (NewPostgresTaskRepo env) c) tasks w)) =
        released (ID ` set tasks) T (rows (store w)) \<and>
      pending items (redis (requeue_all env (NewRequeuer (NewPostgresTaskRepo env) c) tasks w)) =
        rev (map (uuid_String env \<circ> ID) tasks) @ pending items (redis w)"
  using assms(4-)
proof (induction tasks arbitrary: w)
  case Nil
  then show ?case by (simp add: exI)
next
  case (Cons task tasks)
  let ?rq = "NewRequeuer (NewPostgresTaskRepo env) c"
  obtain r where r: "r \<in> set (rows (store w))" "c_id r = ID task"
    "is_stale 30000000 (clock (store w)) r"
    using Cons.prems(4) [of task] by auto
  obtain w' now where w': "requeue_one env ?rq task w = w'"
    "healthy (store w')" "clock (store w) \<le> clock (store w')"
    "rows (store w') = released {c_id r} (\<lambda>_. now) (rows (store w))"
    "pending items (redis w') = uuid_String env (c_id r) # pending items (redis w)"
    using requeue_one_healthy [OF Cons.prems(1) env Cons.prems(2) r(1) r(3)] r(2) by metis
  have "\<exists>r'\<in>set (rows (store w')). c_id r' = ID t \<and> is_stale 30000000 (clock (store w')) r'"
    if t: "t \<in> set tasks" for t
  proof -
    from t Cons.prems(4) [of t] obtain x where x: "x \<in> set (rows (store w))" "c_id x = ID t"
      "is_stale 30000000 (clock (store w)) x" by auto
    moreover from t Cons.prems(3) have "ID t \<noteq> ID task" by (auto simp: image_iff)
    ultimately have "x \<in> set (rows (store w'))"
      using r(2) unfolding w'(4) released_def by (force simp: image_iff)
    with x is_stale_later [OF x(3) w'(3)] show ?thesis by blast
  qed
  with Cons.IH [of w'] w' Cons.prems(2,3) obtain T where T:
    "rows (store (requeue_all env ?rq tasks w')) = released (ID ` set tasks) T (rows (store w'))"
    "pending items (redis (requeue_all env ?rq tasks w')) =
       rev (map (uuid_String env \<circ> ID) tasks) @ pending items (redis w')"
    by auto
  have "{c_id r} \<inter> ID ` set tasks = {}" using Cons.prems(3) r(2) by auto
  then have "rows (store (requeue_all env ?rq (task # tasks) w)) =
      released (ID ` set (task # tasks)) (\<lambda>i. if i \<in> ID ` set tasks then T i else now) (rows (store w))"
    using T(1) w'(1,4) r(2) by (simp add: released_released)
  with T(2) w'(1,5) r(2) show ?case by (intro exI conjI) simp_all
qed

section \<open>One pass\<close>

lemma scan_loop_healthy: "scan_loop msg (map Inr rs) None acc = (acc @ map scan_task rs, None)"
  by (induction rs arbitrary: acc) simp_all

lemma stale_healthy:
  assumes "healthy s" and "interval_30s env"
  obtains now where "clock s \<le> now"
    and "GetStaleInProgressTasks env staleLockThreshold s =
      ((map scan_task (sort_key (\<lambda>r. m_rank (future s (calls s)) (c_id r)) (sql_stale 30000000 now (rows s))),
        None), s\<lparr>clock := now, rows := rows s, calls := Suc (calls s)\<rparr>)"
proof (rule that)
  let ?now = "clock s + int (m_elapsed (future s (calls s)))"
  show "clock s \<le> ?now" by simp
  have "m_rows_fault (future s (calls s)) = RowsHealthy" using assms(1) by (simp add: healthy_def)
  then show "GetStaleInProgressTasks env staleLockThreshold s =
      ((map scan_task (sort_key (\<lambda>r. m_rank (future s (calls s)) (c_id r)) (sql_stale 30000000 ?now (rows s))),
        None), s\<lparr>clock := ?now, rows := rows s, calls := Suc (calls s)\<rparr>)"
    using assms(2)
    by (simp add: GetStaleInProgressTasks_def query_rows_def exec_healthy [OF assms(1)]
        staleLockThreshold_def duration_String_30s interval_30s_def pg_interval_def Let_def
        scan_loop_healthy)
qed

lemma ID_scan [simp]: "ID \<circ> scan_task = c_id" "ID (scan_task r) = c_id r"
  by (simp_all add: fun_eq_iff scan_task_def)

lemma Requeuer_healthy:
  fixes c :: "'q redis_client" and w :: "(pg, 'q) world"
  assumes h: "healthy (store w)" and env: "interval_30s env" "redis_up c" "lpush_law c items"
    and ok: "distinct (map c_id (rows (store w)))"
  defines "w' \<equiv> Requeuer_runOnce env (NewRequeuer (NewPostgresTaskRepo env) c) w"
  obtains now T ids where "clock (store w) \<le> now" and "distinct ids"
    and "set ids = c_id ` {r \<in> set (rows (store w)). is_stale 30000000 now r}"
    and "rows (store w') = released (set ids) T (rows (store w))"
    and "pending items (redis w') = rev (map (uuid_String env) ids) @ pending items (redis w)"
proof -
  let ?rq = "NewRequeuer (NewPostgresTaskRepo env) c"
  obtain now where now: "clock (store w) \<le> now" and scan:
    "GetStaleInProgressTasks env staleLockThreshold (store w) =
      ((map scan_task (sort_key (\<lambda>r. m_rank (future (store w) (calls (store w))) (c_id r))
          (sql_stale 30000000 now (rows (store w)))), None),
        (store w)\<lparr>clock := now, rows := rows (store w), calls := Suc (calls (store w))\<rparr>)"
    using stale_healthy [OF h env(1)] by blast
  define rs where "rs = sort_key (\<lambda>r. m_rank (future (store w) (calls (store w))) (c_id r))
      (sql_stale 30000000 now (rows (store w)))"
  define s' where "s' = (store w)\<lparr>clock := now, rows := rows (store w), calls := Suc (calls (store w))\<rparr>"
  have set_rs: "set rs = {r \<in> set (rows (store w)). is_stale 30000000 now r}"
    by (auto simp: rs_def sql_stale_def)
  have "inj_on c_id (set rs)" "distinct rs"
    using ok unfolding set_rs by (auto simp: distinct_map inj_on_def rs_def sql_stale_def)
  then have d: "distinct (map c_id rs)" by (simp add: distinct_map)
  let ?w1 = "log (LogWarn ''requeue: found stale tasks'') (w\<lparr>store := s'\<rparr>)"
  have each: "\<exists>r\<in>set (rows (store ?w1)). c_id r = ID task \<and> is_stale 30000000 (clock (store ?w1)) r"
    if "task \<in> set (map scan_task rs)" for task
    using that set_rs by (auto simp: s'_def)
  have "healthy (store ?w1)" "distinct (map c_id (rows (store ?w1)))"
    "distinct (map ID (map scan_task rs))"
    using h ok d by (simp_all add: s'_def healthy_def)
  from requeue_all_healthy [OF env this each]
  obtain T where T: "rows (store (requeue_all env ?rq (map scan_task rs) ?w1)) =
        released (ID ` set (map scan_task rs)) T (rows s')"
      "pending items (redis (requeue_all env ?rq (map scan_task rs) ?w1)) =
        rev (map (uuid_String env \<circ> ID) (map scan_task rs)) @ pending items (redis w)"
    by (auto simp: s'_def)
  have "w' = (if rs = [] then w\<lparr>store := s'\<rparr> else requeue_all env ?rq (map scan_task rs) ?w1)"
    using scan unfolding w'_def Requeuer_runOnce_def rs_def s'_def
    by (simp add: NewRequeuer_def NewPostgresTaskRepo_def Let_def)
  then have "rows (store w') = released (set (map c_id rs)) T (rows (store w))"
    "pending items (redis w') = rev (map (uuid_String env) (map c_id rs)) @ pending items (redis w)"
    using T by (auto simp: s'_def image_image comp_def)
  with now d that [of now "map c_id rs" T] set_rs show thesis by simp
qed

section \<open>When a crash is found\<close>

text \<open>A Go duration in the microseconds of the table's clock; the ticks of the requeuer.\<close>

definition micros :: "int \<Rightarrow> int" where "micros d = d div 1000"

definition requeue_tick :: "instant \<Rightarrow> nat \<Rightarrow> instant" where
  "requeue_tick t0 k = t0 + int k * micros requeueInterval"

lemma first_tick_after:
  fixes t0 x p :: int
  assumes "t0 \<le> x" and "0 < p"
  obtains k :: nat where "x < t0 + int k * p" and "t0 + int k * p \<le> x + p"
    and "\<And>j. j < k \<Longrightarrow> t0 + int j * p \<le> x"
proof (rule that)
  define q where "q = (x - t0) div p"
  define m where "m = (x - t0) mod p"
  have eq: "x - t0 = q * p + m" by (simp add: q_def m_def)
  have m: "0 \<le> m" "m < p" using assms(2) by (simp_all add: m_def)
  have k: "int (nat (q + 1)) = q + 1"
    using pos_imp_zdiv_nonneg_iff [of p "x - t0"] assms by (simp add: q_def)
  have kp: "int (nat (q + 1)) * p = q * p + p" unfolding k by (simp add: distrib_right)
  show "x < t0 + int (nat (q + 1)) * p" "t0 + int (nat (q + 1)) * p \<le> x + p"
    using kp eq m by linarith+
  fix j assume "j < nat (q + 1)"
  then have "int j \<le> q" using k by linarith
  then have "int j * p \<le> q * p" using assms(2) by (simp add: mult_right_mono)
  then show "t0 + int j * p \<le> x" using eq m by linarith
qed

section \<open>What no pass finds\<close>

text \<open>The writes the API server itself makes.\<close>

fun api_action :: "db_action \<Rightarrow> bool" where
  "api_action (Insert i k sv e p at) = True"
| "api_action (Requeue i th) = True"
| "api_action a = False"

text \<open>A task that waits for a worker and can only reach one through an entry of the list: its
  status is RETRY, or PENDING without a scheduled time.\<close>

definition needs_worker :: "task_row \<Rightarrow> bool" where
  "needs_worker r \<longleftrightarrow> (c_status r = PENDING \<and> c_scheduled_for r = None) \<or> c_status r = RETRY"

lemma needs_worker_unseen:
  "needs_worker r \<Longrightarrow> \<not> is_stale th now r" "needs_worker r \<Longrightarrow> \<not> is_due now r"
  by (auto simp: needs_worker_def is_stale_def is_due_def)

lemma api_steps_keep_waiting:
  assumes "db_steps J api_action s s'" and "r \<in> set (snd s)" and "needs_worker r"
  shows "r \<in> set (snd s')"
  using assms(1,2)
proof (induction rule: rtranclp_induct)
  case base
  then show ?case .
next
  case (step s' s'')
  then have IH: "r \<in> set (snd s')" by blast
  from step.hyps(2) show ?case
  proof (cases rule: db_step.cases)
    case (statement a t rs)
    show ?thesis
    proof (cases rule: action_cases [of rs J t a])
      case (insert newid key svc email p sched)
      with IH statement show ?thesis by simp
    next
      case (update f)
      have "\<not> row_update t a r (f r)"
        using statement(3) assms(3) by (cases a) (auto simp: needs_worker_unseen)
      then have "f r = r" using update(2) [of r] IH statement by auto
      with IH show ?thesis unfolding statement update(1) by force
    qed
  next
    case (time t t' rs)
    with IH show ?thesis by simp
  qed
qed


text \<open>
  Such a task is never pushed: the requeuer and the scheduler keep the row and the number
  of its entries in the pending list, as long as only API servers write to the table.
\<close>

interpretation pg_api: task_repository
  "NewPostgresTaskRepo env" clock rows "uuid_Parse env" "pg_runs env api_action" for env
  by (rule postgres_contract) simp_all

definition entries :: "env \<Rightarrow> ('q \<Rightarrow> string \<Rightarrow> string list) \<Rightarrow> uuid \<Rightarrow> 'q \<Rightarrow> nat" where
  "entries env items i q = length (filter (\<lambda>v. v = uuid_String env i) (pending items q))"

definition unique_text :: "env \<Rightarrow> uuid \<Rightarrow> bool" where
  "unique_text env i \<longleftrightarrow> (\<forall>j. uuid_String env j = uuid_String env i \<longrightarrow> j = i)"

lemma entries_append:
  "pending items q' = map (uuid_String env) is @ pending items q \<Longrightarrow> unique_text env i \<Longrightarrow>
   i \<notin> set is \<Longrightarrow> entries env items i q' = entries env items i q"
  by (auto simp: entries_def unique_text_def filter_empty_conv)

definition orphaned :: "task_row \<Rightarrow> pg \<Rightarrow> bool" where
  "orphaned r s \<longleftrightarrow> r \<in> set (rows s) \<and> needs_worker r \<and> table_ok (clock s) (rows s) \<and>
     others_satisfy api_action s"

lemma orphaned_runs:
  assumes "pg_runs env api_action s s'" and "orphaned r s"
  shows "orphaned r s'"
proof -
  have steps: "db_steps (jsonb_in env) api_action (clock s, rows s) (clock s', rows s')"
    using assms by (simp add: pg_runs_def orphaned_def)
  have "others_satisfy api_action s'"
    using assms by (simp add: pg_runs_def orphaned_def others_satisfy_def)
  with api_steps_keep_waiting [OF steps, of r] db_steps_table_ok [OF steps] assms(2)
  show ?thesis by (simp add: orphaned_def)
qed

lemma RequeueTask_stale:
  assumes "RequeueTask env i threshold s = (Inr True, s')"
  shows "\<exists>th. \<exists>x\<in>set (snd (before env s)). c_id x = i \<and> is_stale th (clock s') x"
proof -
  from assms obtain n where n: "n > 0" and
    e: "exec env (\<lambda>m now rs. case pg_interval (interval_in env) (duration_String threshold) of
         Inl e \<Rightarrow> (Inl e, rs) | Inr th \<Rightarrow> sql_requeue i th now rs) s = (Inr n, s')"
    by (auto simp: RequeueTask_def split: prod.splits sum.splits)
  from exec_InrD(1) [OF e] obtain th where
    "sql_requeue i th (clock s') (snd (before env s)) = (Inr n, rows s')"
    by (auto split: sum.splits)
  with n have "filter (\<lambda>r. c_id r = i \<and> is_stale th (clock s') r) (snd (before env s)) \<noteq> []"
    by (auto simp: sql_requeue_def sql_update_def split: if_splits)
  then show ?thesis by (auto simp: filter_empty_conv)
qed

lemma orphaned_not_requeued:
  assumes "orphaned r s" and "RequeueTask env i threshold s = (Inr True, s')"
  shows "i \<noteq> c_id r"
proof
  assume i: "i = c_id r"
  have steps: "db_steps (jsonb_in env) api_action (clock s, rows s) (before env s)"
    using assms(1) by (intro before_steps) (simp add: orphaned_def)
  have r: "r \<in> set (snd (before env s))" and ok: "distinct (map c_id (snd (before env s)))"
    using api_steps_keep_waiting [OF steps, of r] db_steps_table_ok [OF steps] assms(1)
    by (simp_all add: orphaned_def table_ok_def)
  obtain th x where "x \<in> set (snd (before env s))" "c_id x = i" "is_stale th (clock s') x"
    using RequeueTask_stale [OF assms(2)] by blast
  with distinct_key_eq [OF ok _ r] i have "is_stale th (clock s') r" by metis
  with assms(1) show False by (simp add: orphaned_def needs_worker_unseen)
qed

lemma requeue_one_orphan:
  fixes c :: "'q redis_client" and w :: "(pg, 'q) world" and task :: Task
  assumes "lpush_law c items" and "unique_text env (c_id r)" and "orphaned r (store w)"
  defines "w' \<equiv> requeue_one env (NewRequeuer (NewPostgresTaskRepo env) c) task w"
  shows "orphaned r (store w') \<and> entries env items (c_id r) (redis w') = entries env items (c_id r) (redis w)"
proof
  have "pg_runs env api_action (store w) (store w')"
    unfolding w'_def by (rule pg_api.requeue_one_reaches) (simp add: NewRequeuer_def)
  with assms(3) show "orphaned r (store w')" by (rule orphaned_runs [rotated])
  show "entries env items (c_id r) (redis w') = entries env items (c_id r) (redis w)"
  proof (cases "\<exists>s'. RequeueTask env (ID task) staleLockThreshold (store w) = (Inr True, s')")
    case True
    then have "c_id r \<notin> set [ID task]" using orphaned_not_requeued [OF assms(3), of env "ID task" staleLockThreshold] by fastforce
    moreover from True have "redis w' = snd (Enqueue env (NewProducer c) (ID task) (redis w))"
      by (auto simp: w'_def requeue_one_def NewRequeuer_def NewPostgresTaskRepo_def Let_def
          split: prod.split option.split)
    ultimately show ?thesis
      using Enqueue_any [of "NewProducer c" items env "ID task" "redis w"] assms(1,2)
        entries_append [of items "redis w'" env "[ID task]" "redis w" "c_id r"]
      by (cases "Enqueue env (NewProducer c) (ID task) (redis w)")
        (auto simp: NewProducer_def entries_def)
  next
    case False
    then have "redis w' = redis w"
      by (auto simp: w'_def requeue_one_def NewRequeuer_def NewPostgresTaskRepo_def Let_def
          split: prod.split sum.split option.split)
    then show ?thesis by simp
  qed
qed


lemma requeue_all_orphan:
  fixes c :: "'q redis_client"
  assumes "lpush_law c items" and "unique_text env (c_id r)" and "orphaned r (store w)"
  shows "orphaned r (store (requeue_all env (NewRequeuer (NewPostgresTaskRepo env) c) tasks w)) \<and>
    entries env items (c_id r) (redis (requeue_all env (NewRequeuer (NewPostgresTaskRepo env) c) tasks w)) =
      entries env items (c_id r) (redis w)"
  using assms(3) requeue_one_orphan [OF assms(1,2)] by (induction tasks arbitrary: w) simp_all

lemma Requeuer_orphan:
  fixes c :: "'q redis_client"
  assumes "lpush_law c items" and "unique_text env (c_id r)" and "orphaned r (store w)"
  defines "w' \<equiv> Requeuer_runOnce env (NewRequeuer (NewPostgresTaskRepo env) c) w"
  shows "orphaned r (store w') \<and> entries env items (c_id r) (redis w') = entries env items (c_id r) (redis w)"
proof -
  obtain ts e s' where scan: "GetStaleInProgressTasks env staleLockThreshold (store w) = ((ts, e), s')"
    by (metis surj_pair)
  have o: "orphaned r s'"
    using orphaned_runs [OF runs_stale assms(3), of env staleLockThreshold] scan by simp
  show ?thesis
  proof (cases "e = None \<and> ts \<noteq> []")
    case True
    let ?w = "log (LogWarn ''requeue: found stale tasks'') (w\<lparr>store := s'\<rparr>)"
    have "w' = requeue_all env (NewRequeuer (NewPostgresTaskRepo env) c) ts ?w"
      using True scan by (simp add: w'_def Requeuer_runOnce_def NewRequeuer_def NewPostgresTaskRepo_def)
    with requeue_all_orphan [OF assms(1,2), of ?w ts] o show ?thesis by simp
  next
    case False
    then have "redis w' = redis w" "store w' = s'"
      using scan by (auto simp: w'_def Requeuer_runOnce_def NewRequeuer_def NewPostgresTaskRepo_def
          Let_def split: option.split)
    with o show ?thesis by simp
  qed
qed

lemma Scheduler_orphan:
  fixes c :: "'q redis_client"
  assumes "lpush_law c items" and "unique_text env (c_id r)" and "orphaned r (store w)"
  defines "w' \<equiv> Scheduler_runOnce env (NewScheduler (NewPostgresTaskRepo env) c) w"
  shows "orphaned r (store w') \<and> entries env items (c_id r) (redis w') = entries env items (c_id r) (redis w)"
proof -
  have sc: "sc_repo (NewScheduler (NewPostgresTaskRepo env) c) = NewPostgresTaskRepo env"
    "client (sc_producer (NewScheduler (NewPostgresTaskRepo env) c)) = c"
    by (simp_all add: NewScheduler_def NewProducer_def)
  have o: "orphaned r (store w')"
    unfolding w'_def by (rule orphaned_runs [OF pg_api.Scheduler_reaches [OF sc(1)] assms(3)])
  obtain pushed where p: "pending items (redis w') = map (uuid_String env) pushed @ pending items (redis w)"
    "set pushed \<subseteq> due_ids (clock (store w')) (rows (store w'))"
    using pg_api.Scheduler_pushes [OF _ sc(1), of items env w] assms(1) sc(2) unfolding w'_def by auto
  have "c_id r \<notin> due_ids (clock (store w')) (rows (store w'))"
    using o distinct_key_eq [of c_id "rows (store w')" _ r] needs_worker_unseen(2)
    by (auto simp: due_ids_def orphaned_def table_ok_def)
  with p o entries_append [OF p(1) assms(2)] show ?thesis by blast
qed

text \<open>The two background loops, their passes interleaved in any order.\<close>

fun background ::
  "env \<Rightarrow> ('s, 'q) Requeuer \<Rightarrow> ('s, 'q) Scheduler \<Rightarrow> bool list \<Rightarrow> ('s, 'q) world \<Rightarrow> ('s, 'q) world" where
  "background env rq sc [] w = w"
| "background env rq sc (b # bs) w =
     background env rq sc bs (if b then Requeuer_runOnce env rq w else Scheduler_runOnce env sc w)"

lemma background_orphan:
  fixes c :: "'q redis_client" and w :: "(pg, 'q) world" and passes :: "bool list"
  assumes "lpush_law c items" and "unique_text env (c_id r)" and "orphaned r (store w)"
  defines "run \<equiv> background env (NewRequeuer (NewPostgresTaskRepo env) c)
      (NewScheduler (NewPostgresTaskRepo env) c)"
  shows "orphaned r (store (run passes w)) \<and>
    entries env items (c_id r) (redis (run passes w)) = entries env items (c_id r) (redis w)"
  using assms(3) Requeuer_orphan [OF assms(1,2)] Scheduler_orphan [OF assms(1,2)] unfolding run_def
  by (induction passes arbitrary: w) simp_all

section \<open>The scheduler over a healthy store\<close>

lemma due_healthy:
  assumes "healthy s"
  obtains now where "clock s \<le> now"
    and "GetPendingScheduledTasks env s =
      ((map scan_task (sort_key (\<lambda>r. m_rank (future s (calls s)) (c_id r)) (sql_due now (rows s))),
        None), s\<lparr>clock := now, rows := rows s, calls := Suc (calls s)\<rparr>)"
proof (rule that)
  let ?now = "clock s + int (m_elapsed (future s (calls s)))"
  show "clock s \<le> ?now" by simp
  have "m_rows_fault (future s (calls s)) = RowsHealthy" using assms(1) by (simp add: healthy_def)
  then show "GetPendingScheduledTasks env s =
      ((map scan_task (sort_key (\<lambda>r. m_rank (future s (calls s)) (c_id r)) (sql_due ?now (rows s))),
        None), s\<lparr>clock := ?now, rows := rows s, calls := Suc (calls s)\<rparr>)"
    by (simp add: GetPendingScheduledTasks_def query_rows_def exec_healthy [OF assms(1)] Let_def
        scan_loop_healthy)
qed

lemma Scheduler_healthy:
  fixes c :: "'q redis_client" and w :: "(pg, 'q) world" and env :: env
  assumes h: "healthy (store w)" and env: "redis_up c" "lpush_law c items"
    and ok: "distinct (map c_id (rows (store w)))"
  defines "w' \<equiv> Scheduler_runOnce env (NewScheduler (NewPostgresTaskRepo env) c) w"
  obtains now ids where "clock (store w) \<le> now" and "distinct ids"
    and "set ids = due_ids now (rows (store w))"
    and "store w' = (store w)\<lparr>clock := now, rows := rows (store w), calls := Suc (calls (store w))\<rparr>"
    and "pending items (redis w') = rev (map (uuid_String env) ids) @ pending items (redis w)"
proof -
  let ?sc = "NewScheduler (NewPostgresTaskRepo env) c"
  obtain now where now: "clock (store w) \<le> now" and scan: "GetPendingScheduledTasks env (store w) =
      ((map scan_task (sort_key (\<lambda>r. m_rank (future (store w) (calls (store w))) (c_id r))
          (sql_due now (rows (store w)))), None),
        (store w)\<lparr>clock := now, rows := rows (store w), calls := Suc (calls (store w))\<rparr>)"
    using due_healthy [OF h] by blast
  define rs where "rs = sort_key (\<lambda>r. m_rank (future (store w) (calls (store w))) (c_id r))
      (sql_due now (rows (store w)))"
  let ?s = "(store w)\<lparr>clock := now, rows := rows (store w), calls := Suc (calls (store w))\<rparr>"
  have set_rs: "set rs = {r \<in> set (rows (store w)). is_due now r}"
    by (auto simp: rs_def sql_due_def)
  have "inj_on c_id (set rs)" "distinct rs"
    using ok unfolding set_rs by (auto simp: distinct_map inj_on_def rs_def sql_due_def)
  then have d: "distinct (map c_id rs)" by (simp add: distinct_map)
  have "store w' = ?s"
    using scan by (simp add: w'_def Scheduler_runOnce_def NewScheduler_def NewPostgresTaskRepo_def Let_def)
  moreover have "pending items (redis w') =
      rev (map (uuid_String env \<circ> ID) (map scan_task rs)) @ pending items (redis w)"
    unfolding w'_def
    by (rule pg_repo.Scheduler_exact(1))
      (use env scan in \<open>simp_all add: NewScheduler_def NewProducer_def NewPostgresTaskRepo_def
        redis_up_def rs_def\<close>)
  ultimately show thesis
    using that [of now "map c_id rs"] now d set_rs by (simp add: due_ids_def comp_def)
qed

end
