(* ===== verification/Task_Json.thy ===== *)
theory Task_Json
  imports Models
begin

text \<open>
  What \<^verbatim>\<open>json.NewEncoder(w).Encode(task)\<close> writes for a \<open>Task\<close>: the struct tags of
  \<^verbatim>\<open>internal/models/task.go\<close> (member names, \<open>omitempty\<close>, the hidden lock fields) and the
  encoder's rule for a \<open>[]byte\<close>, standard base64.
\<close>

section \<open>Standard base64\<close>

definition b64_alphabet :: string where
  "b64_alphabet = ''ABCDEFGHIJKLMNOPQRSTUVWXYZabcdefghijklmnopqrstuvwxyz0123456789+/''"

definition b64_char :: "nat \<Rightarrow> char" where
  "b64_char n = b64_alphabet ! n"

definition byte :: "char \<Rightarrow> nat" where
  "byte c = of_char c"

fun b64_encode :: "string \<Rightarrow> string" where
  "b64_encode [] = []"
| "b64_encode [a] =
     [b64_char (byte a div 4), b64_char (byte a mod 4 * 16), CHR ''='', CHR ''='']"
| "b64_encode [a, b] =
     (let n = byte a * 256 + byte b in
      [b64_char (n div 1024), b64_char (n div 16 mod 64), b64_char (n mod 16 * 4), CHR ''=''])"
| "b64_encode (a # b # c # s) =
     (let n = byte a * 65536 + byte b * 256 + byte c in
      b64_char (n div 262144) # b64_char (n div 4096 mod 64) # b64_char (n div 64 mod 64) #
      b64_char (n mod 64) # b64_encode s)"

text \<open>The decoder a client applies.\<close>

definition b64_index :: "char \<Rightarrow> nat" where
  "b64_index c = length (takeWhile (\<lambda>x. x \<noteq> c) b64_alphabet)"

fun b64_decode :: "string \<Rightarrow> string" where
  "b64_decode (w # x # y # z # s) =
     (if y = CHR ''='' then [char_of (b64_index w * 4 + b64_index x div 16)]
      else if z = CHR ''=''
      then (let n = b64_index w * 4096 + b64_index x * 64 + b64_index y in
            [char_of (n div 1024), char_of (n div 4 mod 256)])
      else (let n = b64_index w * 262144 + b64_index x * 4096 + b64_index y * 64 + b64_index z in
            char_of (n div 65536) # char_of (n div 256 mod 256) # char_of (n mod 256) #
            b64_decode s))"
| "b64_decode s = []"

lemma length_takeWhile_nth:
  "distinct xs \<Longrightarrow> i < length xs \<Longrightarrow> length (takeWhile (\<lambda>x. x \<noteq> xs ! i) xs) = i"
proof (induction xs arbitrary: i)
  case Nil
  then show ?case by simp
next
  case (Cons a xs)
  then show ?case by (cases i) auto
qed

lemma b64_alphabet_facts: "distinct b64_alphabet" "length b64_alphabet = 64" "CHR ''='' \<notin> set b64_alphabet"
  by (simp_all add: b64_alphabet_def)

lemma b64_index_char: "n < 64 \<Longrightarrow> b64_index (b64_char n) = n"
  using length_takeWhile_nth [of b64_alphabet n] b64_alphabet_facts
  by (simp add: b64_index_def b64_char_def)

lemma b64_char_not_pad: "n < 64 \<Longrightarrow> b64_char n \<noteq> CHR ''=''"
  unfolding b64_char_def by (metis b64_alphabet_facts(2,3) nth_mem)

lemma byte_less: "byte c < 256"
  by (simp add: byte_def)

lemma char_of_byte: "char_of (byte c) = c"
  by (simp add: byte_def)

text \<open>Four sextets read back as the number they were cut from.\<close>

lemma sextets:
  fixes n d1 d2 d3 r1 r2 r3 :: nat
  assumes "n = d1 * 64 + r1" and "d1 = d2 * 64 + r2" and "d2 = d3 * 64 + r3"
  shows "d3 * 262144 + r3 * 4096 + r2 * 64 + r1 = n"
  using assms by simp

lemma b64_digits:
  "(n::nat) div 262144 * 262144 + n div 4096 mod 64 * 4096 + n div 64 mod 64 * 64 + n mod 64 = n"
proof -
  have "n div 4096 = n div 64 div 64" using div_mult2_eq [of n 64 64] by simp
  moreover have "n div 262144 = n div 4096 div 64" using div_mult2_eq [of n 4096 64] by simp
  ultimately show ?thesis
    by (intro sextets [of n "n div 64" _ "n div 4096"]) (simp_all only: div_mult_mod_eq)
qed

lemma decode_full:
  "w < 64 \<Longrightarrow> x < 64 \<Longrightarrow> y < 64 \<Longrightarrow> z < 64 \<Longrightarrow>
   b64_decode (b64_char w # b64_char x # b64_char y # b64_char z # s) =
     (let n = w * 262144 + x * 4096 + y * 64 + z in
      char_of (n div 65536) # char_of (n div 256 mod 256) # char_of (n mod 256) # b64_decode s)"
  by (simp only: b64_decode.simps b64_index_char b64_char_not_pad if_False)

lemma decode_two:
  "w < 64 \<Longrightarrow> x < 64 \<Longrightarrow> y < 64 \<Longrightarrow>
   b64_decode [b64_char w, b64_char x, b64_char y, CHR ''=''] =
     (let n = w * 4096 + x * 64 + y in [char_of (n div 1024), char_of (n div 4 mod 256)])"
  by (simp only: b64_decode.simps b64_index_char b64_char_not_pad if_False if_True simp_thms)

lemma digits256: "r < 256 \<Longrightarrow> (q * 256 + r) div 256 = q \<and> (q * 256 + r) mod 256 = r" for q r :: nat
  by simp

lemma bytes3:
  fixes a b c :: char
  defines "n \<equiv> byte a * 65536 + byte b * 256 + byte c"
  shows "n div 65536 = byte a" and "n div 256 mod 256 = byte b" and "n mod 256 = byte c"
    and "n div 262144 < 64"
proof -
  have n: "n = (byte a * 256 + byte b) * 256 + byte c" by (simp add: n_def)
  have 1: "n div 256 = byte a * 256 + byte b" and "n mod 256 = byte c"
    unfolding n using digits256 [OF byte_less] by blast+
  then show "n mod 256 = byte c" by simp
  show "n div 256 mod 256 = byte b" unfolding 1 using digits256 [OF byte_less] by blast
  have "n div 65536 = n div 256 div 256" using div_mult2_eq [of n 256 256] by simp
  then show 2: "n div 65536 = byte a" unfolding 1 using digits256 [OF byte_less] by metis
  have "n div 262144 = byte a div 4" using div_mult2_eq [of n 65536 4] 2 by simp
  then show "n div 262144 < 64" using byte_less [of a] by simp
qed

lemma bytes2:
  fixes n :: nat
  assumes "n < 65536"
  shows "n div 1024 * 4096 + n div 16 mod 64 * 64 + n mod 16 * 4 = n * 4" "n div 1024 < 64"
    "n mod 16 * 4 < 64"
proof -
  have "n div 1024 = n div 16 div 64" using div_mult2_eq [of n 16 64] by simp
  then have "n div 1024 * 64 + n div 16 mod 64 = n div 16" by (simp only: div_mult_mod_eq)
  moreover have "n div 16 * 16 + n mod 16 = n" by (rule div_mult_mod_eq)
  moreover have "d * 4096 + m * 64 + r * 4 = n * 4"
    if "d * 64 + m = q" "q * 16 + r = n" for d m q r :: nat using that by simp
  ultimately show "n div 1024 * 4096 + n div 16 mod 64 * 64 + n mod 16 * 4 = n * 4" by blast
  show "n div 1024 < 64" using assms by (simp add: less_mult_imp_div_less)
  show "n mod 16 * 4 < 64" by simp
qed

lemma b64_roundtrip: "b64_decode (b64_encode s) = s"
proof (induction s rule: b64_encode.induct)
  case 1
  then show ?case by simp
next
  case (2 a)
  have "byte a div 4 < 64" "byte a mod 4 * 16 < 64" using byte_less [of a] by auto
  then show ?case by (simp add: b64_index_char char_of_byte)
next
  case (3 a b)
  let ?n = "byte a * 256 + byte b"
  have n: "?n < 65536" "?n * 4 div 1024 = byte a" "?n * 4 div 4 mod 256 = byte b"
    using byte_less [of a] byte_less [of b] by simp_all
  have "?n div 16 mod 64 < 64" by simp
  from decode_two [OF bytes2(2) [OF n(1)] this bytes2(3) [OF n(1)]]
  show ?case by (simp only: b64_encode.simps Let_def bytes2(1) [OF n(1)] n char_of_byte)
next
  case (4 a b c s)
  let ?n = "byte a * 65536 + byte b * 256 + byte c"
  have "?n div 4096 mod 64 < 64" "?n div 64 mod 64 < 64" "?n mod 64 < 64" by simp_all
  from decode_full [OF bytes3(4) this] "4.IH" [OF refl]
  show ?case by (simp only: b64_encode.simps Let_def b64_digits bytes3 char_of_byte)
qed

section \<open>The encoding of a Task\<close>

definition omitempty :: "string \<Rightarrow> json option \<Rightarrow> (string \<times> json) list" where
  "omitempty name v = (case v of None \<Rightarrow> [] | Some j \<Rightarrow> [(name, j)])"

definition payload_json :: "string option \<Rightarrow> json option" where
  "payload_json p =
     (case p of None \<Rightarrow> None | Some b \<Rightarrow> if b = [] then None else Some (JStr (b64_encode b)))"

definition Task_json :: "(uuid \<Rightarrow> string) \<Rightarrow> Task \<Rightarrow> json" where
  "Task_json show_id t = JObj
     ([(''id'', JStr (show_id (ID t))),
       (''idempotency_key'', JStr (show_id (IdempotencyKey t))),
       (''service_name'', JStr (ServiceName t)),
       (''user_email'', JStr (UserEmail t)),
       (''status'', JStr (Status t)),
       (''attempts'', JInt (Attempts t)),
       (''max_attempts'', JInt (MaxAttempts t))] @
      omitempty ''payload'' (payload_json (Payload t)) @
      omitempty ''error_message'' (map_option JStr (ErrorMessage t)) @
      omitempty ''evidence_path'' (map_option JStr (EvidencePath t)) @
      omitempty ''scheduled_for'' (map_option JTime (ScheduledFor t)) @
      [(''created_at'', JTime (CreatedAt t)),
       (''updated_at'', JTime (UpdatedAt t))])"

fun json_member :: "string \<Rightarrow> json \<Rightarrow> json option" where
  "json_member k (JObj ms) = map_of ms k"
| "json_member k j = None"

end
