(* ===== verification/Http.thy ===== *)
theory Http
  imports World Task_Json
begin

text \<open>
  The \<^verbatim>\<open>http.ResponseWriter\<close> a handler writes to, the \<open>statusRecorder\<close> that wraps it, and
  the middleware \<open>InstrumentHandler\<close> of \<^verbatim>\<open>internal/metrics/metrics.go\<close>.

  The first \<open>WriteHeader\<close> fixes the status line and the headers; a body written before it
  fixes status 200.  The recorder keeps the code of the last \<open>WriteHeader\<close> that went
  through it.
\<close>

section \<open>Requests and the response writer\<close>

record request =
  r_method :: string
  r_path :: string
  r_id :: string \<comment> \<open>the path value \<^verbatim>\<open>{id}\<close> of the matched pattern\<close>
  r_body :: string

datatype chunk = JsonChunk json | Bytes string

record writer =
  w_header :: "(string \<times> string) list"
  w_sent :: "(int \<times> (string \<times> string) list) option"
  w_body :: "chunk list"
  w_recorded :: int \<comment> \<open>\<open>statusRecorder.statusCode\<close>\<close>

definition new_writer :: writer where
  "new_writer = \<lparr>w_header = [], w_sent = None, w_body = [], w_recorded = 0\<rparr>"

definition Header_Set :: "string \<Rightarrow> string \<Rightarrow> writer \<Rightarrow> writer" where
  "Header_Set k v w = w\<lparr>w_header := AList.update k v (w_header w)\<rparr>"

text \<open>The wrapped writer's own \<open>WriteHeader\<close>: a second call changes nothing.\<close>

definition raw_WriteHeader :: "int \<Rightarrow> writer \<Rightarrow> writer" where
  "raw_WriteHeader code w =
     (case w_sent w of None \<Rightarrow> w\<lparr>w_sent := Some (code, w_header w)\<rparr> | Some _ \<Rightarrow> w)"

definition WriteHeader :: "int \<Rightarrow> writer \<Rightarrow> writer" where
  "WriteHeader code w = raw_WriteHeader code (w\<lparr>w_recorded := code\<rparr>)"

definition Write :: "chunk \<Rightarrow> writer \<Rightarrow> writer" where
  "Write c w = (let w' = raw_WriteHeader 200 w in w'\<lparr>w_body := w_body w' @ [c]\<rparr>)"

text \<open>What the client sees: the status line (200 when the handler wrote nothing).\<close>

definition final_status :: "writer \<Rightarrow> int" where
  "final_status w = (case w_sent w of None \<Rightarrow> 200 | Some (code, hdr) \<Rightarrow> code)"

definition StatusOK :: int where "StatusOK = 200"
definition StatusCreated :: int where "StatusCreated = 201"
definition StatusNoContent :: int where "StatusNoContent = 204"
definition StatusBadRequest :: int where "StatusBadRequest = 400"
definition StatusNotFound :: int where "StatusNotFound = 404"
definition StatusUnprocessableEntity :: int where "StatusUnprocessableEntity = 422"
definition StatusInternalServerError :: int where "StatusInternalServerError = 500"

lemmas http_status = StatusOK_def StatusCreated_def StatusNoContent_def StatusBadRequest_def
  StatusNotFound_def StatusUnprocessableEntity_def StatusInternalServerError_def

text \<open>\<^verbatim>\<open>http.NotFound\<close> of the standard library.\<close>

definition http_NotFound :: "writer \<Rightarrow> writer" where
  "http_NotFound w =
     Write (Bytes (''404 page not found'' @ [CHR 0x0A]))
       (WriteHeader StatusNotFound
         (Header_Set ''X-Content-Type-Options'' ''nosniff''
           (Header_Set ''Content-Type'' ''text/plain; charset=utf-8'' w)))"

lemmas writer_defs = Header_Set_def raw_WriteHeader_def WriteHeader_def Write_def http_NotFound_def
  http_status

section \<open>Instrumentation\<close>

type_synonym ('s, 'q) handler = "request \<Rightarrow> writer \<times> ('s, 'q) world \<Rightarrow> writer \<times> ('s, 'q) world"

definition Observe :: "string \<times> string \<times> string \<Rightarrow> ('s, 'q) world \<Rightarrow> ('s, 'q) world" where
  "Observe labels g =
     g\<lparr>meters := (meters g)\<lparr>HTTPRequestDuration := HTTPRequestDuration (meters g) @ [labels]\<rparr>\<rparr>"

definition InstrumentHandler :: "string \<Rightarrow> ('s, 'q) handler \<Rightarrow> ('s, 'q) handler" where
  "InstrumentHandler path next_handler r st =
     (case st of (w, g) \<Rightarrow>
        (let recorder = w\<lparr>w_recorded := StatusOK\<rparr>;
             (w', g') = next_handler r (recorder, g)
         in (w', Observe (r_method r, path, Itoa (w_recorded w')) g')))"

text \<open>
  What the middleware relies on: the handler sends exactly one status line, through the
  recorder, and leaves the histogram to the middleware.
\<close>

locale http_handler =
  fixes h :: "('s, 'q) handler"
  assumes one_status: "w_sent w = None \<Longrightarrow> h r (w, g) = (w', g') \<Longrightarrow>
      \<exists>hdr. w_sent w' = Some (w_recorded w', hdr)"
    and histogram_untouched: "h r (w, g) = (w', g') \<Longrightarrow>
      HTTPRequestDuration (meters g') = HTTPRequestDuration (meters g)"
begin

lemma observed_status:
  assumes "w_sent w = None" and "InstrumentHandler path h r (w, g) = (w', g')"
  shows "HTTPRequestDuration (meters g') =
      HTTPRequestDuration (meters g) @ [(r_method r, path, Itoa (final_status w'))]"
    and "w_sent w' \<noteq> None"
proof -
  obtain w1 g1 where h: "h r (w\<lparr>w_recorded := StatusOK\<rparr>, g) = (w1, g1)" by fastforce
  with assms(2) have w': "w' = w1" "g' = Observe (r_method r, path, Itoa (w_recorded w1)) g1"
    by (auto simp: InstrumentHandler_def)
  from one_status [OF _ h] assms(1) obtain hdr where s: "w_sent w1 = Some (w_recorded w1, hdr)"
    by auto
  show "HTTPRequestDuration (meters g') =
      HTTPRequestDuration (meters g) @ [(r_method r, path, Itoa (final_status w'))]"
    using histogram_untouched [OF h] s w' by (simp add: Observe_def final_status_def)
  show "w_sent w' \<noteq> None" using s w' by simp
qed

end

end
