(* ===== verification/Go_Path.thy ===== *)
theory Go_Path
  imports Go_Text
begin

text \<open>
  \<^verbatim>\<open>path/filepath\<close> on Unix: \<open>Clean\<close> removes empty and \<open>.\<close> components and resolves \<open>..\<close>
  against the component before it; \<open>Join\<close> joins with a slash and cleans.
\<close>

fun split_slash :: "string \<Rightarrow> string list" where
  "split_slash [] = [[]]"
| "split_slash (c # s) =
     (if c = CHR ''/'' then [] # split_slash s
      else (case split_slash s of [] \<Rightarrow> [[c]] | x # xs \<Rightarrow> (c # x) # xs))"

fun clean_from :: "bool \<Rightarrow> string list \<Rightarrow> string list \<Rightarrow> string list" where
  "clean_from rooted [] out = rev out"
| "clean_from rooted (x # xs) out =
     (if x = [] \<or> x = ''.'' then clean_from rooted xs out
      else if x = ''..''
      then (case out of
              [] \<Rightarrow> clean_from rooted xs (if rooted then [] else [''..''])
            | y # ys \<Rightarrow> clean_from rooted xs (if y = ''..'' then ''..'' # out else ys))
      else clean_from rooted xs (x # out))"

definition rooted :: "string \<Rightarrow> bool" where
  "rooted p \<longleftrightarrow> p \<noteq> [] \<and> hd p = CHR ''/''"

definition path_comps :: "string \<Rightarrow> string list" where
  "path_comps p = clean_from (rooted p) (split_slash p) []"

definition render :: "bool \<Rightarrow> string list \<Rightarrow> string" where
  "render r cs =
     (if r then CHR ''/'' # strings_Join cs ''/''
      else if cs = [] then ''.'' else strings_Join cs ''/'')"

definition filepath_Clean :: "string \<Rightarrow> string" where
  "filepath_Clean p = render (rooted p) (path_comps p)"

fun filepath_Join :: "string list \<Rightarrow> string" where
  "filepath_Join [] = []"
| "filepath_Join (e # es) =
     (if e \<noteq> [] then filepath_Clean (strings_Join (e # es) ''/'') else filepath_Join es)"

lemma split_slash_not_Nil [simp]: "split_slash s \<noteq> []"
  by (cases s) (auto split: list.split)

lemma split_slash_append: "split_slash (s @ CHR ''/'' # t) = split_slash s @ split_slash t"
  by (induction s) (auto split: list.split)

lemma split_slash_none: "CHR ''/'' \<notin> set s \<Longrightarrow> split_slash s = [s]"
  by (induction s) auto

lemma clean_from_append:
  "clean_from r (xs @ ys) out = clean_from r ys (rev (clean_from r xs out))"
  by (induction r xs out rule: clean_from.induct) (auto split: list.split)

definition plain_comp :: "string \<Rightarrow> bool" where
  "plain_comp x \<longleftrightarrow> x \<noteq> [] \<and> x \<noteq> ''.''"

lemma clean_from_plain:
  "''..'' \<notin> set xs \<Longrightarrow> clean_from r xs out = rev out @ filter plain_comp xs"
  by (induction xs arbitrary: out) (auto simp: plain_comp_def)

text \<open>Joining a directory with an element that has no \<open>..\<close> component stays below it.\<close>

lemma Join_below:
  assumes "dir \<noteq> []" and "''..'' \<notin> set (split_slash e)"
  shows "filepath_Join [dir, e] = render (rooted dir) (path_comps dir @ filter plain_comp (split_slash e))"
proof -
  have "rooted (dir @ CHR ''/'' # e) = rooted dir" using assms(1) by (simp add: rooted_def)
  moreover have "path_comps (dir @ CHR ''/'' # e) = path_comps dir @ filter plain_comp (split_slash e)"
    using assms calculation
    by (simp add: path_comps_def split_slash_append clean_from_append clean_from_plain)
  ultimately show ?thesis using assms(1) by (simp add: filepath_Clean_def)
qed

end
