(* ===== verification/Handlers.thy ===== *)
theory Handlers
  imports Queue_Laws Http Go_Path
begin

text \<open>
  \<^verbatim>\<open>internal/handlers/task_handler.go\<close>: validation, the three request handlers and their
  response helpers, over the repository interface and the producer.
\<close>

record ('s, 'q) TaskHandler =
  h_repo :: "'s TaskRepository"
  h_producer :: "'q Producer"

definition NewTaskHandler :: "'s TaskRepository \<Rightarrow> 'q Producer \<Rightarrow> ('s, 'q) TaskHandler" where
  "NewTaskHandler repo producer = \<lparr>h_repo = repo, h_producer = producer\<rparr>"

section \<open>Helpers\<close>

definition writeJSON :: "int \<Rightarrow> json \<Rightarrow> writer \<Rightarrow> writer" where
  "writeJSON statusCode v w =
     Write (JsonChunk v) (WriteHeader statusCode (Header_Set ''Content-Type'' ''application/json'' w))"

definition writeError :: "int \<Rightarrow> string \<Rightarrow> writer \<Rightarrow> writer" where
  "writeError statusCode message w = writeJSON statusCode (JObj [(''error'', JStr message)]) w"

definition parseUUID :: "env \<Rightarrow> string \<Rightarrow> go_error + uuid" where
  "parseUUID env s =
     (case uuid_Parse env s of Inl txt \<Rightarrow> Inl (ErrorString ''not a valid UUID'') | Inr i \<Rightarrow> Inr i)"

definition missing_fields :: "CreateTaskRequest \<Rightarrow> string list" where
  "missing_fields req =
     (if TrimSpace (req_IdempotencyKey req) = [] then [''idempotency_key is required''] else []) @
     (if TrimSpace (req_ServiceName req) = [] then [''service_name is required''] else []) @
     (if TrimSpace (req_UserEmail req) = [] then [''user_email is required''] else [])"

definition validateCreateTaskRequest :: "CreateTaskRequest \<Rightarrow> go_error option" where
  "validateCreateTaskRequest req =
     (let errs = missing_fields req in
      if length errs > 0 then Some (ErrorString (strings_Join errs ''; '')) else None)"

section \<open>POST /tasks\<close>

definition record_created :: "Task \<Rightarrow> ('s, 'q) world \<Rightarrow> ('s, 'q) world" where
  "record_created task g =
     g\<lparr>meters := (meters g)
        \<lparr>TasksCreatedTotal := (TasksCreatedTotal (meters g))
           (ServiceName task := TasksCreatedTotal (meters g) (ServiceName task) + 1),
         TasksInProgress := TasksInProgress (meters g) + 1\<rparr>\<rparr>"

definition is_new :: "Task \<Rightarrow> bool" where
  "is_new task \<longleftrightarrow> CreatedAt task = UpdatedAt task"

definition is_scheduled_future :: "instant \<Rightarrow> Task \<Rightarrow> bool" where
  "is_scheduled_future now task \<longleftrightarrow>
     (case ScheduledFor task of None \<Rightarrow> False | Some t \<Rightarrow> now < t)"

definition enqueue_created ::
  "env \<Rightarrow> ('s, 'q) TaskHandler \<Rightarrow> Task \<Rightarrow> ('s, 'q) world \<Rightarrow> ('s, 'q) world" where
  "enqueue_created env h task g =
     (case Enqueue env (h_producer h) (ID task) (redis g) of
        (Some e, q') \<Rightarrow> log (LogError ''failed to enqueue task after creation'') (g\<lparr>redis := q'\<rparr>)
      | (None, q') \<Rightarrow> g\<lparr>redis := q'\<rparr>)"

text \<open>\<open>now\<close> is the handler's \<^verbatim>\<open>time.Now()\<close>.\<close>

definition Handler_CreateTask ::
  "env \<Rightarrow> ('s, 'q) TaskHandler \<Rightarrow> instant \<Rightarrow> ('s, 'q) handler" where
  "Handler_CreateTask env h now r st =
     (case st of (w, g) \<Rightarrow>
      (case json_Decode env (r_body r) of
         Inl txt \<Rightarrow> (writeError StatusBadRequest (''invalid request body: '' @ txt) w, g)
       | Inr req \<Rightarrow>
        (case validateCreateTaskRequest req of
           Some e \<Rightarrow> (writeError StatusUnprocessableEntity (Error_text e) w, g)
         | None \<Rightarrow>
          (case repo_CreateTask (h_repo h) req (store g) of
             (Inl e, s') \<Rightarrow>
               (let g' = g\<lparr>store := s'\<rparr> in
                if is_no_rows e
                then (writeError StatusInternalServerError ''internal error'' w,
                      log (LogError ''task not found after idempotency key lookup'') g')
                else (writeError StatusInternalServerError ''failed to create task'' w,
                      log (LogError ''failed to create task'') g'))
           | (Inr task, s') \<Rightarrow>
               (let g1 = g\<lparr>store := s'\<rparr>;
                    isNew = is_new task;
                    g2 = (if isNew then record_created task g1 else g1);
                    g3 = (if isNew \<and> \<not> is_scheduled_future now task
                          then enqueue_created env h task g2 else g2);
                    statusCode = (if \<not> isNew then StatusOK else StatusCreated)
                in (writeJSON statusCode (Task_json (uuid_String env) task) w, g3))))))"

section \<open>GET /tasks/{id}\<close>

definition Handler_GetTask :: "env \<Rightarrow> ('s, 'q) TaskHandler \<Rightarrow> ('s, 'q) handler" where
  "Handler_GetTask env h r st =
     (case st of (w, g) \<Rightarrow>
      (if r_id r = '''' then (writeError StatusBadRequest ''missing task id'' w, g)
       else (case parseUUID env (r_id r) of
          Inl e \<Rightarrow> (writeError StatusBadRequest ''invalid task id format: must be a UUID'' w, g)
        | Inr i \<Rightarrow>
           (case repo_GetTaskByID (h_repo h) i (store g) of
              (Inl e, s') \<Rightarrow>
                (let g' = g\<lparr>store := s'\<rparr> in
                 if is_no_rows e then (writeError StatusNotFound ''task not found'' w, g')
                 else (writeError StatusInternalServerError ''failed to get task'' w,
                       log (LogError ''failed to get task'') g'))
            | (Inr task, s') \<Rightarrow>
                (writeJSON StatusOK (Task_json (uuid_String env) task) w, g\<lparr>store := s'\<rparr>)))))"

section \<open>GET /tasks/{id}/screenshot\<close>

text \<open>
  The operating system as the handler sees it: the environment variables, and what opening
  and copying a file gives (the bytes sent, and the error that cut the copy short).
\<close>

datatype open_result = NotExist | OpenFails string | Opened string "string option"

record os =
  LookupEnv :: "string \<Rightarrow> string option"
  os_Open :: "string \<Rightarrow> open_result"

definition os_Getenv :: "os \<Rightarrow> string \<Rightarrow> string" where
  "os_Getenv sys k = (case LookupEnv sys k of None \<Rightarrow> [] | Some v \<Rightarrow> v)"

definition evidence_dir :: "os \<Rightarrow> string" where
  "evidence_dir sys =
     (let d = os_Getenv sys ''EVIDENCE_PATH'' in if d = [] then ''./evidence'' else d)"

definition image_path :: "os \<Rightarrow> string \<Rightarrow> string" where
  "image_path sys idStr = filepath_Join [evidence_dir sys, idStr @ ''-latest.png'']"

definition no_cache :: "writer \<Rightarrow> writer" where
  "no_cache w =
     Header_Set ''Expires'' ''0''
      (Header_Set ''Pragma'' ''no-cache''
       (Header_Set ''Cache-Control'' ''no-store, no-cache, must-revalidate, max-age=0'' w))"

definition Handler_GetTaskScreenshot :: "env \<Rightarrow> os \<Rightarrow> ('s, 'q) handler" where
  "Handler_GetTaskScreenshot env sys r st =
     (case st of (w, g) \<Rightarrow>
      (case parseUUID env (r_id r) of
         Inl e \<Rightarrow> (writeError StatusBadRequest ''invalid task id format: must be a UUID'' w, g)
       | Inr i \<Rightarrow>
          (let w1 = no_cache w in
           case os_Open sys (image_path sys (r_id r)) of
             NotExist \<Rightarrow> (http_NotFound w1, g)
           | OpenFails txt \<Rightarrow>
               (writeError StatusInternalServerError ''failed to read screenshot'' w1,
                log (LogError ''failed to open screenshot'') g)
           | Opened bytes err \<Rightarrow>
               (Write (Bytes bytes) (WriteHeader StatusOK (Header_Set ''Content-Type'' ''image/png'' w1)),
                (case err of None \<Rightarrow> g | Some txt \<Rightarrow> log (LogError ''failed to stream screenshot'') g)))))"

section \<open>The handlers keep the middleware's contract\<close>

lemma writeJSON_status [simp]:
  "w_sent w = None \<Longrightarrow> \<exists>hdr. w_sent (writeJSON c v w) = Some (w_recorded (writeJSON c v w), hdr)"
  by (simp add: writeJSON_def writer_defs)

lemma writeError_status [simp]:
  "w_sent w = None \<Longrightarrow> \<exists>hdr. w_sent (writeError c m w) = Some (w_recorded (writeError c m w), hdr)"
  by (simp add: writeError_def)

lemma no_cache_sent [simp]: "w_sent (no_cache w) = w_sent w"
  by (simp add: no_cache_def writer_defs)

lemma NotFound_status [simp]:
  "w_sent w = None \<Longrightarrow> \<exists>hdr. w_sent (http_NotFound w) = Some (w_recorded (http_NotFound w), hdr)"
  by (simp add: writer_defs)

lemma enqueue_created_frame [simp]:
  "meters (enqueue_created env h t g) = meters g" "store (enqueue_created env h t g) = store g"
  by (auto simp: enqueue_created_def split: prod.split option.split)

lemma record_created_frame [simp]:
  "store (record_created t g) = store g" "redis (record_created t g) = redis g"
  "HTTPRequestDuration (meters (record_created t g)) = HTTPRequestDuration (meters g)"
  by (simp_all add: record_created_def)

interpretation create_h: http_handler "Handler_CreateTask env h now" for env h now
proof (unfold_locales, goal_cases)
  case (1 w r g w' g')
  then show ?case
    by (auto simp: Handler_CreateTask_def Let_def split: sum.splits option.splits prod.splits if_splits)
next
  case (2 r w g w' g')
  then show ?case
    by (auto simp: Handler_CreateTask_def Let_def split: sum.splits option.splits prod.splits if_splits)
qed

interpretation get_h: http_handler "Handler_GetTask env h" for env h
proof (unfold_locales, goal_cases)
  case (1 w r g w' g')
  then show ?case
    by (auto simp: Handler_GetTask_def Let_def split: sum.splits prod.splits if_splits)
next
  case (2 r w g w' g')
  then show ?case
    by (auto simp: Handler_GetTask_def Let_def split: sum.splits prod.splits if_splits)
qed

interpretation screenshot_h: http_handler "Handler_GetTaskScreenshot env sys" for env sys
proof (unfold_locales, goal_cases)
  case (1 w r g w' g')
  then show ?case
    by (auto simp: Handler_GetTaskScreenshot_def Let_def writer_defs
        split: sum.splits open_result.splits option.splits)
next
  case (2 r w g w' g')
  then show ?case
    by (auto simp: Handler_GetTaskScreenshot_def Let_def
        split: sum.splits open_result.splits option.splits)
qed

end
