(* ===== verification/Db_Pool.thy ===== *)
theory Db_Pool
  imports Handlers
begin

text \<open>
  \<^verbatim>\<open>internal/db/postgres.go\<close> and \<open>NewRedisClient\<close> of \<^verbatim>\<open>internal/queue/client.go\<close>: the
  connection settings from the environment and the connect-and-ping start-up.  The pool
  and Redis libraries are parameters.
\<close>

section \<open>The connection string\<close>

definition getEnv :: "os \<Rightarrow> string \<Rightarrow> string \<Rightarrow> string" where
  "getEnv sys key fallback = (case LookupEnv sys key of Some value \<Rightarrow> value | None \<Rightarrow> fallback)"

definition dsn_format :: "string \<Rightarrow> string \<Rightarrow> string \<Rightarrow> string \<Rightarrow> string \<Rightarrow> string" where
  "dsn_format user password host port db =
     ''postgres://'' @ user @ '':'' @ password @ ''@'' @ host @ '':'' @ port @ ''/'' @ db @
     ''?sslmode=disable''"

definition buildDSN :: "os \<Rightarrow> string" where
  "buildDSN sys =
     dsn_format (getEnv sys ''POSTGRES_USER'' ''trialterminator'')
       (getEnv sys ''POSTGRES_PASSWORD'' ''secret'')
       (getEnv sys ''POSTGRES_HOST'' ''localhost'')
       (getEnv sys ''POSTGRES_PORT'' ''5432'')
       (getEnv sys ''POSTGRES_DB'' ''trialterminator'')"

text \<open>Reading the fields of such a URL back, delimiter by delimiter.\<close>

fun cut :: "char \<Rightarrow> string \<Rightarrow> (string \<times> string) option" where
  "cut c [] = None"
| "cut c (x # xs) =
     (if x = c then Some ([], xs)
      else (case cut c xs of None \<Rightarrow> None | Some (a, b) \<Rightarrow> Some (x # a, b)))"

definition dsn_fields :: "string \<Rightarrow> (string \<times> string \<times> string \<times> string \<times> string) option" where
  "dsn_fields s =
     (case cut (CHR '':'') (drop (length ''postgres://'') s) of None \<Rightarrow> None | Some (user, s1) \<Rightarrow>
      (case cut (CHR ''@'') s1 of None \<Rightarrow> None | Some (password, s2) \<Rightarrow>
       (case cut (CHR '':'') s2 of None \<Rightarrow> None | Some (host, s3) \<Rightarrow>
        (case cut (CHR ''/'') s3 of None \<Rightarrow> None | Some (port, s4) \<Rightarrow>
         (case cut (CHR ''?'') s4 of None \<Rightarrow> None | Some (db, s5) \<Rightarrow>
            Some (user, password, host, port, db))))))"

lemma cut_append: "c \<notin> set a \<Longrightarrow> cut c (a @ c # b) = Some (a, b)"
  by (induction a) auto

section \<open>The pool\<close>

record 'c pool_config =
  MaxConns :: int
  MinConns :: int
  MaxConnIdleTime :: int
  HealthCheckPeriod :: int
  connection :: 'c

text \<open>pgxpool: parsing a connection string, opening a pool, pinging it.\<close>

record ('c, 'p) pgxpool =
  ParseConfig :: "string \<Rightarrow> string + 'c pool_config"
  NewWithConfig :: "'c pool_config \<Rightarrow> string + 'p"
  pool_Ping :: "'p \<Rightarrow> string option"

definition configure_pool :: "'c pool_config \<Rightarrow> 'c pool_config" where
  "configure_pool config =
     config\<lparr>MaxConns := 10, MinConns := 2, MaxConnIdleTime := 5 * Minute, HealthCheckPeriod := 1 * Minute\<rparr>"

text \<open>The UTF-8 bytes of the dash in the two ping messages.\<close>

definition em_dash :: string where "em_dash = [CHR 0xE2, CHR 0x80, CHR 0x94]"

definition NewPool :: "os \<Rightarrow> ('c, 'p) pgxpool \<Rightarrow> go_error + 'p" where
  "NewPool sys lib =
     (case ParseConfig lib (buildDSN sys) of
        Inl txt \<Rightarrow> Inl (Wrapped ''db: failed to parse dsn: '' (ErrorString txt))
      | Inr config \<Rightarrow>
         (case NewWithConfig lib (configure_pool config) of
            Inl txt \<Rightarrow> Inl (Wrapped ''db: failed to connect: '' (ErrorString txt))
          | Inr pool \<Rightarrow>
             (case pool_Ping lib pool of
                Some txt \<Rightarrow>
                  Inl (Wrapped (''db: ping failed '' @ em_dash @ '' is postgres running? '') (ErrorString txt))
              | None \<Rightarrow> Inr pool)))"

section \<open>The Redis client\<close>

record 'r redis_lib =
  redis_NewClient :: "string \<Rightarrow> int \<Rightarrow> 'r" \<comment> \<open>address and database number\<close>
  redis_Ping :: "'r \<Rightarrow> string option"

definition redis_addr :: "os \<Rightarrow> string" where
  "redis_addr sys =
     (let addr = os_Getenv sys ''REDIS_ADDR'' in if addr = '''' then ''localhost:6379'' else addr)"

definition NewRedisClient :: "os \<Rightarrow> 'r redis_lib \<Rightarrow> go_error + 'r" where
  "NewRedisClient sys lib =
     (let c = redis_NewClient lib (redis_addr sys) 0 in
      case redis_Ping lib c of
        Some txt \<Rightarrow>
          Inl (Wrapped (''queue: redis ping failed '' @ em_dash @ '' is redis running? '') (ErrorString txt))
      | None \<Rightarrow> Inr c)"

end
