(* ===== verification/Server.thy ===== *)
theory Server
  imports Db_Pool
begin

text \<open>
  \<^verbatim>\<open>internal/server/server.go\<close>: the routes, the CORS middleware and the assembly of the
  server; and \<^verbatim>\<open>cmd/api/main.go\<close>: the order of start-up and shutdown.
\<close>

section \<open>CORS\<close>

definition corsMiddleware :: "('s, 'q) handler \<Rightarrow> ('s, 'q) handler" where
  "corsMiddleware next_handler r st =
     (case st of (w, g) \<Rightarrow>
        (let w1 = Header_Set ''Access-Control-Allow-Headers'' ''Content-Type''
               (Header_Set ''Access-Control-Allow-Methods'' ''GET, POST, OPTIONS''
                 (Header_Set ''Access-Control-Allow-Origin'' ''*'' w))
         in if r_method r = ''OPTIONS'' then (WriteHeader StatusNoContent w1, g)
            else next_handler r (w1, g)))"

section \<open>Routing\<close>

text \<open>
  A pattern of \<open>ServeMux\<close> is a method and path segments, a literal or one wildcard
  \<^verbatim>\<open>{id}\<close>, which matches one non-empty segment.  A GET pattern serves HEAD too.
  \<open>r_path\<close> is the request's path, already clean.
\<close>

datatype segment = Lit string | IdWildcard

datatype route = R_CreateTask | R_GetTask | R_Screenshot | R_Metrics | R_Health

definition routes :: "(string \<times> segment list \<times> route) list" where
  "routes =
     [(''POST'', [Lit ''tasks''], R_CreateTask),
      (''GET'', [Lit ''tasks'', IdWildcard], R_GetTask),
      (''GET'', [Lit ''tasks'', IdWildcard, Lit ''screenshot''], R_Screenshot),
      (''GET'', [Lit ''metrics''], R_Metrics),
      (''GET'', [Lit ''health''], R_Health)]"

fun match_segments :: "segment list \<Rightarrow> string list \<Rightarrow> string option \<Rightarrow> string option option" where
  "match_segments [] [] cap = Some cap"
| "match_segments (Lit l # ps) (s # ss) cap = (if s = l then match_segments ps ss cap else None)"
| "match_segments (IdWildcard # ps) (s # ss) cap = (if s = [] then None else match_segments ps ss (Some s))"
| "match_segments ps ss cap = None"

definition method_matches :: "string \<Rightarrow> string \<Rightarrow> bool" where
  "method_matches pat m \<longleftrightarrow> m = pat \<or> (pat = ''GET'' \<and> m = ''HEAD'')"

definition path_segments :: "string \<Rightarrow> string list" where
  "path_segments p = (case p of [] \<Rightarrow> [] | c # s \<Rightarrow> if c = CHR ''/'' then split_slash s else split_slash p)"

definition path_matches :: "string list \<Rightarrow> (string \<times> segment list \<times> route) list" where
  "path_matches ss = filter (\<lambda>(m, ps, rt). match_segments ps ss None \<noteq> None) routes"

definition route_of :: "string \<Rightarrow> string list \<Rightarrow> (route \<times> string) option" where
  "route_of m ss =
     (case find (\<lambda>(pat, ps, rt). method_matches pat m) (path_matches ss) of
        None \<Rightarrow> None
      | Some (pat, ps, rt) \<Rightarrow>
          Some (rt, case match_segments ps ss None of Some (Some i) \<Rightarrow> i | _ \<Rightarrow> []))"

definition allowed_methods :: "string list \<Rightarrow> string list" where
  "allowed_methods ss =
     concat (map (\<lambda>(m, ps, rt). if m = ''GET'' then [''GET'', ''HEAD''] else [m]) (path_matches ss))"

definition http_MethodNotAllowed :: "string \<Rightarrow> writer \<Rightarrow> writer" where
  "http_MethodNotAllowed allow w =
     Write (Bytes (''Method Not Allowed'' @ [CHR 0x0A]))
       (WriteHeader 405
         (Header_Set ''X-Content-Type-Options'' ''nosniff''
           (Header_Set ''Content-Type'' ''text/plain; charset=utf-8''
             (Header_Set ''Allow'' allow w))))"

definition health_handler :: "('s, 'q) handler" where
  "health_handler r st =
     (case st of (w, g) \<Rightarrow>
        (Write (Bytes (''{\"status\":\"ok\"}''))
          (WriteHeader StatusOK (Header_Set ''Content-Type'' ''application/json'' w)), g))"

text \<open>
  The mux of \<open>New\<close>: each API route is instrumented with its pattern as the label;
  \<open>prom\<close> is \<^verbatim>\<open>promhttp.Handler()\<close>.
\<close>

definition pattern_label :: "route \<Rightarrow> string" where
  "pattern_label rt =
     (case rt of R_CreateTask \<Rightarrow> ''POST /tasks''
      | R_GetTask \<Rightarrow> ''GET /tasks/{id}''
      | R_Screenshot \<Rightarrow> ''GET /tasks/{id}/screenshot''
      | R_Metrics \<Rightarrow> ''GET /metrics''
      | R_Health \<Rightarrow> ''GET /health'')"

definition dispatch ::
  "env \<Rightarrow> ('s, 'q) TaskHandler \<Rightarrow> os \<Rightarrow> instant \<Rightarrow> ('s, 'q) handler \<Rightarrow> route \<Rightarrow> ('s, 'q) handler" where
  "dispatch env h sys now prom rt =
     (case rt of
        R_CreateTask \<Rightarrow> InstrumentHandler (pattern_label rt) (Handler_CreateTask env h now)
      | R_GetTask \<Rightarrow> InstrumentHandler (pattern_label rt) (Handler_GetTask env h)
      | R_Screenshot \<Rightarrow> InstrumentHandler (pattern_label rt) (Handler_GetTaskScreenshot env sys)
      | R_Metrics \<Rightarrow> prom
      | R_Health \<Rightarrow> health_handler)"

definition mux ::
  "env \<Rightarrow> ('s, 'q) TaskHandler \<Rightarrow> os \<Rightarrow> instant \<Rightarrow> ('s, 'q) handler \<Rightarrow> ('s, 'q) handler" where
  "mux env h sys now prom r st =
     (let ss = path_segments (r_path r) in
      case route_of (r_method r) ss of
        Some (rt, i) \<Rightarrow> dispatch env h sys now prom rt (r\<lparr>r_id := i\<rparr>) st
      | None \<Rightarrow>
          (case st of (w, g) \<Rightarrow>
             (if allowed_methods ss = [] then http_NotFound w
              else http_MethodNotAllowed (strings_Join (allowed_methods ss) '', '') w, g)))"

section \<open>Assembly\<close>

text \<open>
  The result of \<open>New\<close>: the listening address, the handler (given the time of a request),
  and the two background components it starts.
\<close>

record ('s, 'q) server =
  Addr :: string
  Handler :: "instant \<Rightarrow> ('s, 'q) handler"
  requeuer :: "('s, 'q) Requeuer"
  scheduler :: "('s, 'q) Scheduler"

definition server_port :: "os \<Rightarrow> string" where
  "server_port sys =
     (let port = os_Getenv sys ''SERVER_PORT'' in if port = '''' then ''8080'' else port)"

definition New :: "env \<Rightarrow> os \<Rightarrow> 'q redis_client \<Rightarrow> (pg, 'q) handler \<Rightarrow> (pg, 'q) server" where
  "New env sys c prom =
     (let taskRepo = NewPostgresTaskRepo env;
          producer = NewProducer c;
          taskHandler = NewTaskHandler taskRepo producer
      in \<lparr>Addr = '':'' @ server_port sys,
          Handler = (\<lambda>now. corsMiddleware (mux env taskHandler sys now prom)),
          requeuer = NewRequeuer taskRepo c,
          scheduler = NewScheduler taskRepo c\<rparr>)"

section \<open>main\<close>

datatype main_event =
    LoadDotenv
  | NewContext
  | ConnectDatabase
  | ConnectRedis
  | NewServer
  | ListenAndServe
  | WaitSignal
  | CancelContext
  | ShutdownServer
  | ForcedShutdown
  | CancelShutdownContext
  | CloseRedis
  | ClosePool
  | Exit nat
  | Return

text \<open>
  The events of the process, given what its calls return: the database, the Redis client,
  the listener (an error other than \<open>ErrServerClosed\<close> before any signal, or none) and the
  shutdown.  \<^verbatim>\<open>os.Exit\<close> ends the process without running the deferred calls; returning
  runs them in reverse order.
\<close>

definition main ::
  "go_error + 'p \<Rightarrow> go_error + 'r \<Rightarrow> go_error option \<Rightarrow> go_error option \<Rightarrow> main_event list" where
  "main pool redisClient listen shutdown =
     [LoadDotenv, NewContext, ConnectDatabase] @
     (case pool of Inl e \<Rightarrow> [Exit 1] | Inr p \<Rightarrow>
        [ConnectRedis] @
        (case redisClient of Inl e \<Rightarrow> [Exit 1] | Inr c \<Rightarrow>
           [NewServer, ListenAndServe] @
           (case listen of Some e \<Rightarrow> [Exit 1] | None \<Rightarrow>
              [WaitSignal, CancelContext, ShutdownServer] @
              (case shutdown of Some e \<Rightarrow> [ForcedShutdown] | None \<Rightarrow> []) @
              [CancelShutdownContext, CloseRedis, ClosePool, CancelContext, Return])))"

end
