(* ===== verification/Demo.thy ===== *)
theory Demo
  imports Recovery Server
begin

text \<open>
  Concrete inputs at which the properties are applied: an environment that knows two UUIDs,
  a Redis that keeps its lists in a function, a healthy Postgres, and a few tasks.
\<close>

definition demo_id1 :: string where "demo_id1 = ''00000000-0000-0000-0000-000000000001''"
definition demo_id2 :: string where "demo_id2 = ''00000000-0000-0000-0000-000000000002''"

definition demo_show :: "uuid \<Rightarrow> string" where
  "demo_show u = (if u = 1 then demo_id1 else demo_id2)"

definition demo_parse :: "string \<Rightarrow> string + uuid" where
  "demo_parse s =
     (if s = demo_id1 then Inr 1 else if s = demo_id2 then Inr 2 else Inl ''invalid UUID format'')"

definition demo_req :: CreateTaskRequest where
  "demo_req = \<lparr>req_IdempotencyKey = demo_id1, req_ServiceName = ''test'',
     req_UserEmail = ''user@example.com'', req_Payload = [], req_ScheduledFor = None\<rparr>"

text \<open>A body is the letter r for the request above; anything else does not decode.\<close>

definition demo_env :: env where
  "demo_env = \<lparr>uuid_Parse = demo_parse, uuid_String = demo_show, json_Marshal = (\<lambda>p. Inr ''{}''),
     json_Decode = (\<lambda>b. if b = ''r'' then Inr demo_req else Inl ''unexpected EOF''),
     jsonb_in = (\<lambda>b. Some b),
     interval_in = (\<lambda>s. if s = ''30s'' then Some 30000000 else None)\<rparr>"

type_synonym demo_queue = "string \<Rightarrow> string list"

definition demo_redis :: "demo_queue redis_client" where
  "demo_redis k v q = (None, q(k := v # q k))"

definition demo_items :: "demo_queue \<Rightarrow> string \<Rightarrow> string list" where
  "demo_items q = q"

definition demo_moment :: moment where
  "demo_moment = \<lparr>m_before = [], m_elapsed = 0, m_fault = Healthy, m_rows_fault = RowsHealthy,
     m_uuid = 1, m_rank = (\<lambda>_. 0)\<rparr>"

definition demo_pg :: "instant \<Rightarrow> table \<Rightarrow> pg" where
  "demo_pg t rs = \<lparr>clock = t, rows = rs, calls = 0, future = (\<lambda>_. demo_moment)\<rparr>"

definition demo_row :: "uuid \<Rightarrow> task_row" where
  "demo_row i = default_row 0 i i ''test'' ''user@example.com'' None None"

definition demo_running :: "uuid \<Rightarrow> instant \<Rightarrow> task_row" where
  "demo_running i t = touch t (claim_row t ''worker-1'' (demo_row i))"

definition demo_world :: "instant \<Rightarrow> table \<Rightarrow> (pg, demo_queue) world" where
  "demo_world t rs = \<lparr>store = demo_pg t rs, redis = (\<lambda>_. []), meters = new_metrics, logs = []\<rparr>"

lemmas demo_ids = demo_id1_def demo_id2_def
lemmas demo_rows = demo_row_def demo_running_def default_row_def row_transformers
lemmas demo_defs = demo_show_def demo_parse_def demo_req_def demo_env_def demo_moment_def
  demo_pg_def demo_world_def

lemma demo_healthy [simp]: "healthy (demo_pg t rs)"
  by (simp add: healthy_def demo_pg_def demo_moment_def)

lemma demo_interval [simp]: "interval_30s demo_env"
  by (simp add: interval_30s_def demo_env_def)

lemma demo_redis_up [simp]: "redis_up demo_redis"
  by (simp add: redis_up_def demo_redis_def)

lemma demo_redis_law [simp]: "lpush_law demo_redis demo_items"
  by (simp add: lpush_law_def demo_redis_def demo_items_def)

lemma demo_world_store [simp]: "store (demo_world t rs) = demo_pg t rs"
  by (simp add: demo_world_def)

lemma demo_pg_fields [simp]: "clock (demo_pg t rs) = t" "rows (demo_pg t rs) = rs"
  "calls (demo_pg t rs) = 0" "future (demo_pg t rs) = (\<lambda>_. demo_moment)"
  by (simp_all add: demo_pg_def)

lemma demo_pg_update [simp]: "(demo_pg t rs)\<lparr>rows := rs'\<rparr> = demo_pg t rs'"
  "clock ((demo_pg t rs)\<lparr>calls := n\<rparr>) = t" "rows ((demo_pg t rs)\<lparr>calls := n\<rparr>) = rs"
  "m_uuid demo_moment = 1" "m_before demo_moment = []"
  by (simp_all add: demo_pg_def demo_moment_def)

lemma demo_varchar [simp]: "pg_varchar255 ''test'' = Inr ''test''"
  "pg_varchar255 ''user@example.com'' = Inr ''user@example.com''"
  "pg_varchar255 ''worker-1'' = Inr ''worker-1''" "pg_varchar255 ''worker-2'' = Inr ''worker-2''"
  by (simp_all add: pg_varchar255_def pg_text_def is_cont_def)

lemma demo_varchar_ok [simp]: "varchar_ok ''test''" "varchar_ok ''user@example.com''"
  "varchar_ok ''worker-1''"
  by (simp_all add: varchar_ok_def runes_def is_cont_def)

text \<open>What one call of \<open>CreateTask\<close> does on an empty table.\<close>

lemma demo_exec:
  "exec env stmt (demo_pg t rs) =
     (case stmt demo_moment t rs of (res, rs') \<Rightarrow>
        (res, (demo_pg t rs)\<lparr>rows := rs', calls := 1\<rparr>))"
  by (simp add: exec_def Let_def demo_moment_def demo_pg_def split: prod.split)

lemma demo_create:
  "CreateTask demo_env demo_req (demo_pg 0 []) =
     (Inr (scan_task (demo_row 1)), (demo_pg 0 [demo_row 1])\<lparr>calls := 1\<rparr>)"
  by (simp add: CreateTask_def query_row_def demo_exec sql_insert_def insert_row_def
      marshal_payload_def demo_env_def demo_parse_def demo_req_def demo_row_def)

end
