(* ===== verification/Table_Props.thy ===== *)
theory Table_Props
  imports Demo
begin

text \<open>
  Properties of the shared tasks table and of the claims on it: what holds in every
  reachable state, and what the Go repository and the Node worker can do to each other.
\<close>

section \<open>Reachable tables\<close>

text \<open>Starting from the empty table of the migration, every sequence of statements of
  the API server and of any number of workers, interleaved in any way, keeps the table
  sound: ids and idempotency keys are unique, attempts stay in the INT range,
  service, email and lock owner fit their VARCHAR(255) columns,
  \<open>created_at \<le> updated_at \<le> now\<close>, a row has a lock time exactly if it has a lock owner, and
  a locked row is IN_PROGRESS.\<close>

lemma reachable_table_ok:
  assumes "db_steps J A (t0, []) (t, rs)"
  shows "table_ok t rs"
  using db_steps_table_ok [OF assms] by (simp add: table_ok_def)

lemma demo_insert:
  "apply_action Some 0 (Insert 1 1 ''test'' ''user@example.com'' None None) [] = [demo_row 1]"
  by (simp add: sql_insert_def insert_row_def demo_row_def)

lemma demo_claim: "apply_action Some 5 (WClaim 1 ''worker-1'') [demo_row 1] = [demo_running 1 5]"
  by (simp add: worker_claimTask_def sql_update_def worker_claimable_def demo_row_def
      demo_running_def attempts_room_def default_row_def int4_max_def)

lemma demo_reach: "db_steps Some no_set_status (0, []) (5, [demo_running 1 5])"
proof -
  have "db_steps Some no_set_status (0, []) (0, [demo_row 1])"
    using db_steps_statement [of no_set_status "Insert 1 1 ''test'' ''user@example.com'' None None" Some 0 "[]"] demo_insert
    by simp
  also have "db_steps Some no_set_status (0, [demo_row 1]) (5, [demo_row 1])"
    by (rule r_into_rtranclp) (rule db_step.time, simp)
  also have "db_steps Some no_set_status (5, [demo_row 1]) (5, [demo_running 1 5])"
    using db_steps_statement [of no_set_status "WClaim 1 ''worker-1''" Some 5 "[demo_row 1]"] demo_claim
    by simp
  finally show ?thesis .
qed

text \<open>No statement of the system ever removes a task or changes what it is: after any
  sequence of steps each stored row is still there with its id, idempotency key, service,
  email, payload, \<open>max_attempts\<close> and creation time, and with at least as many attempts.\<close>

lemma rows_never_lost:
  assumes "db_steps J A (t, rs) (t', rs')" and "r \<in> set rs"
  shows "\<exists>r'\<in>set rs'. same_task r r'"
  using db_steps_evolves [OF assms(1)] assms(2) by (auto elim: evolvesE)

section \<open>Claims\<close>

lemma table_ok_before:
  assumes "table_ok (clock s) (rows s)"
  shows "table_ok (fst (before env s)) (snd (before env s))"
  using db_steps_table_ok [OF before_steps [of "\<lambda>_. True" s env]] assms
  by (simp add: others_satisfy_def list_all_iff)

lemma ClaimTask_claims:
  assumes "ClaimTask env i w s = (Inr (Some task), s1)" and "table_ok (clock s) (rows s)"
  shows "claimed i (rows s1)"
proof -
  from assms(1) have "query_row env (\<lambda>m. sql_claim i w) s = (Inr task, s1)"
    by (auto simp: ClaimTask_def split: prod.splits sum.splits if_splits)
  then obtain r where "sql_claim i w (clock s1) (snd (before env s)) = (Inr (Some r), rows s1)"
    by (elim query_row_InrD) blast
  with sql_claim_claimed [OF table_ok_before [OF assms(2), of env], of i w "clock s1" r]
  show ?thesis by simp
qed

lemma claimed_no_ClaimTask:
  assumes "claimed i (snd (before env s))"
  shows "ClaimTask env i w s \<noteq> (Inr (Some task), s')"
proof
  assume "ClaimTask env i w s = (Inr (Some task), s')"
  then have "query_row env (\<lambda>m. sql_claim i w) s = (Inr task, s')"
    by (auto simp: ClaimTask_def split: prod.splits sum.splits if_splits)
  then obtain r where "sql_claim i w (clock s') (snd (before env s)) = (Inr (Some r), rows s')"
    by (elim query_row_InrD) blast
  with claimed_not_claimable(1) [OF assms, of w "clock s'" r] show False by simp
qed

lemma pg_runs_steps:
  assumes "pg_runs env A s1 s2" and "others_satisfy A s2"
  shows "db_steps (jsonb_in env) A (clock s1, rows s1) (clock s2, rows s2)"
  using assms by (simp add: pg_runs_def others_satisfy_def)

text \<open>C9: A claim is exclusive.  Once \<open>ClaimTask\<close> has given a task to a worker, then whatever
  the system does without releasing that task (no requeue, no result, no status update of
  it), no later \<open>ClaimTask\<close> for it returns a task, and neither does the worker's own claim
  statement.\<close>

theorem claim_is_exclusive:
  assumes "ClaimTask env i w s = (Inr (Some task), s1)" and "table_ok (clock s) (rows s)"
    and "pg_runs env (\<lambda>a. \<not> releases i a) s1 s2" and "others_satisfy (\<lambda>a. \<not> releases i a) s2"
  shows "ClaimTask env i w' s2 \<noteq> (Inr (Some task'), s3) \<and>
    fst (worker_claimTask i w' now (rows s2)) \<noteq> Inr (Some row)"
proof
  have 2: "claimed i (rows s2)"
    using db_steps_claimed [OF pg_runs_steps [OF assms(3,4)]] ClaimTask_claims [OF assms(1,2)]
    by simp
  with db_steps_claimed [OF before_steps [OF assms(4)]] have "claimed i (snd (before env s2))"
    by simp
  then show "ClaimTask env i w' s2 \<noteq> (Inr (Some task'), s3)" by (rule claimed_no_ClaimTask)
  show "fst (worker_claimTask i w' now (rows s2)) \<noteq> Inr (Some row)"
    by (rule claimed_not_claimable(2) [OF 2])
qed

lemma demo_ClaimTask:
  "ClaimTask demo_env 1 ''worker-1'' (demo_pg 5 [demo_row 1]) =
     (Inr (Some (scan_task (demo_running 1 5))), (demo_pg 5 [demo_running 1 5])\<lparr>calls := 1\<rparr>)"
  by (simp add: ClaimTask_def query_row_def demo_exec sql_claim_def sql_update_def claimable_def
      attempts_room_def int4_max_def demo_running_def demo_row_def default_row_def)

theorem claim_is_exclusive_witness:
  "\<forall>task' s3. ClaimTask demo_env 1 ''worker-2'' ((demo_pg 5 [demo_running 1 5])\<lparr>calls := 1\<rparr>) \<noteq>
     (Inr (Some task'), s3)"
  by (intro allI, rule conjunct1, rule claim_is_exclusive [OF demo_ClaimTask])
    (simp_all add: table_ok_def row_ok_def demo_row_def default_row_def int4_max_def
      others_satisfy_def demo_pg_def demo_moment_def)

lemma RequeueTask_lost:
  assumes "RequeueTask env i th s = (Inr True, s1)" and "table_ok (clock s) (rows s)"
  shows "list_all (lost i w) (rows s1)"
proof -
  from requeue_pending [OF assms(1)] obtain r where
    r: "r \<in> set (rows s1)" "c_id r = i" "c_locked_at r = None" by blast
  have "pg_runs env (\<lambda>_. True) s s1"
    using runs_requeue [of "\<lambda>_. True" env s i th] assms(1) by simp
  then have "db_steps (jsonb_in env) (\<lambda>_. True) (clock s, rows s) (clock s1, rows s1)"
    by (simp add: pg_runs_def others_satisfy_def list_all_iff)
  with db_steps_table_ok assms(2) have ok: "table_ok (clock s1) (rows s1)" by fastforce
  then have "row_ok (clock s1) r" using r(1) by (simp add: table_ok_def list_all_iff)
  then have "c_locked_by r = None" using r(3) by (simp add: row_ok_def)
  moreover have "x = r" if "x \<in> set (rows s1)" "c_id x = i" for x
    using distinct_key_eq [of c_id "rows s1" x r] ok r that by (simp add: table_ok_def)
  ultimately show ?thesis by (fastforce simp: lost_def list_all_iff)
qed

fun result_write :: "uuid \<Rightarrow> string \<Rightarrow> db_action \<Rightarrow> bool" where
  "result_write i w (WSuccess j v) = (j = i \<and> v = w)"
| "result_write i w (WRetry j v err) = (j = i \<and> v = w)"
| "result_write i w (WSchedule j v at) = (j = i \<and> v = w)"
| "result_write i w (WDeadLetter j v err ev) = (j = i \<and> v = w)"
| "result_write i w (Heartbeat j v) = (j = i \<and> v = w)"
| "result_write i w a = False"

text \<open>C10: The fence.  Once the requeuer's \<open>RequeueTask\<close> has taken a task away, nothing a
  worker writes about it (result, retry, schedule, dead letter, heartbeat) changes the
  table, until that worker claims the task again; whatever everybody else does meanwhile.\<close>

theorem requeued_worker_is_fenced:
  assumes "RequeueTask env i th s = (Inr True, s1)" and "table_ok (clock s) (rows s)"
    and "pg_runs env (\<lambda>a. \<not> locks_for i w a) s1 s2" and "others_satisfy (\<lambda>a. \<not> locks_for i w a) s2"
    and "result_write i w a"
  shows "apply_action (jsonb_in env) (clock s2) a (rows s2) = rows s2"
proof -
  have "list_all (lost i w) (rows s2)"
    using db_steps_rows [OF pg_runs_steps [OF assms(3,4)], of "lost i w"]
      RequeueTask_lost [OF assms(1,2), of w] row_update_lost [of _ _ _ _ i w]
    by (simp add: lost_def)
  with assms(5) fenced [of i w "rows s2" "jsonb_in env" "clock s2"] show ?thesis
    by (cases a) auto
qed

lemma demo_RequeueTask:
  "RequeueTask demo_env 1 staleLockThreshold (demo_pg 40000000 [demo_running 1 5]) =
     (Inr True, (demo_pg 40000000 [touch 40000000 (release_row (demo_running 1 5))])\<lparr>calls := 1\<rparr>)"
  by (simp add: RequeueTask_def demo_exec staleLockThreshold_def duration_String_30s
      pg_interval_def demo_env_def sql_requeue_def sql_update_def is_stale_def demo_rows)

lemma demo_running_ok: "t \<le> t' \<Longrightarrow> 0 \<le> t \<Longrightarrow> table_ok t' [demo_running 1 t]"
  by (simp add: table_ok_def row_ok_def demo_rows int4_max_def)

theorem requeued_worker_is_fenced_witness:
  "apply_action Some 40000000 (WSuccess 1 ''worker-1'')
     [touch 40000000 (release_row (demo_running 1 5))] =
     [touch 40000000 (release_row (demo_running 1 5))]"
proof -
  let ?s = "(demo_pg 40000000 [touch 40000000 (release_row (demo_running 1 5))])\<lparr>calls := 1\<rparr>"
  have "others_satisfy (\<lambda>a. \<not> locks_for 1 ''worker-1'' a) ?s"
    by (simp add: others_satisfy_def demo_pg_def demo_moment_def)
  from requeued_worker_is_fenced [OF demo_RequeueTask _ pg_runs_refl this, of "WSuccess 1 ''worker-1''"]
  show ?thesis using demo_running_ok [of 5 40000000] by (simp add: demo_env_def)
qed

end
