(* ===== verification/Repo_Props.thy ===== *)
theory Repo_Props
  imports Table_Props "HOL-Library.Multiset"
begin

text \<open>
  The methods of the Postgres repository under any interference of the other processes:
  idempotent creation, the exact results of the scans and of the requeue, and the status
  update.
\<close>

section \<open>Creation\<close>

lemma CreateTask_runs:
  "CreateTask env req s = (res, s') \<Longrightarrow> pg_runs env (\<lambda>_. True) s s'"
  using runs_create [of "\<lambda>_. True" env s req] by simp

lemma same_task_scan:
  "same_task r r' \<Longrightarrow> ID (scan_task r') = ID (scan_task r) \<and>
    ServiceName (scan_task r') = ServiceName (scan_task r) \<and>
    UserEmail (scan_task r') = UserEmail (scan_task r) \<and>
    Payload (scan_task r') = Payload (scan_task r) \<and>
    CreatedAt (scan_task r') = CreatedAt (scan_task r)"
  by (simp add: same_task_def scan_task_def)

text \<open>C13: Creation is idempotent.  If \<open>CreateTask\<close> has once returned a task for an
  idempotency key, then whatever all processes do afterwards, every later successful
  \<open>CreateTask\<close> with a spelling of that key returns the same task (id, service, email,
  payload and creation time of the first), and the table holds one row with the key.\<close>

theorem create_task_idempotent:
  assumes "CreateTask env req s = (Inr t, s1)" and "table_ok (clock s) (rows s)"
    and "pg_runs env (\<lambda>_. True) s1 s2"
    and "CreateTask env req' s2 = (Inr t', s3)"
    and "uuid_Parse env (req_IdempotencyKey req') = uuid_Parse env (req_IdempotencyKey req)"
  shows "ID t' = ID t \<and> ServiceName t' = ServiceName t \<and> UserEmail t' = UserEmail t \<and>
    Payload t' = Payload t \<and> CreatedAt t' = CreatedAt t \<and>
    length (filter (\<lambda>r. Inr (c_key r) = uuid_Parse env (req_IdempotencyKey req)) (rows s3)) = 1"
proof -
  obtain r where r: "r \<in> set (rows s1)" "t = scan_task r"
    "uuid_Parse env (req_IdempotencyKey req) = Inr (c_key r)"
    using create_stored [OF assms(1)] by blast
  obtain r' where r': "r' \<in> set (rows s3)" "t' = scan_task r'"
    "uuid_Parse env (req_IdempotencyKey req') = Inr (c_key r')"
    using create_stored [OF assms(4)] by blast
  have run: "pg_runs env (\<lambda>_. True) s1 s3"
    by (rule pg_runs_trans [OF assms(3) CreateTask_runs [OF assms(4)]])
  obtain x where x: "x \<in> set (rows s3)" "same_task r x"
    using evolvesE [OF pg_runs_evolves [OF run] r(1)] by blast
  have d: "distinct (map c_key (rows s3))"
    using pg_runs_table_ok [OF run] pg_runs_table_ok [OF CreateTask_runs [OF assms(1)] assms(2)]
    by (simp add: table_ok_def)
  have "c_key x = c_key r'" using x(2) r(3) r'(3) assms(5) by (simp add: same_task_def)
  with distinct_key_eq [OF d x(1) r'(1)] have "x = r'" by blast
  moreover have "filter (\<lambda>r. Inr (c_key r) = uuid_Parse env (req_IdempotencyKey req)) (rows s3) = [r']"
    using r'(3) assms(5) by (intro filter_key_unique [OF d r'(1)]) simp_all
  ultimately show ?thesis using same_task_scan [OF x(2)] r(2) r'(2) by simp
qed

lemma demo_replay:
  "CreateTask demo_env demo_req ((demo_pg 0 [demo_row 1])\<lparr>calls := 1\<rparr>) =
     (Inr (scan_task (demo_row 1)), (demo_pg 0 [demo_row 1])\<lparr>calls := 3\<rparr>)"
  by (simp add: CreateTask_def GetTaskByIdempotencyKey_def query_row_def exec_def select_def
      sql_by_key_def sql_insert_def insert_row_def marshal_payload_def demo_defs demo_row_def go_err)

theorem create_task_idempotent_witness:
  "length (filter (\<lambda>r. Inr (c_key r) = uuid_Parse demo_env (req_IdempotencyKey demo_req))
     (rows ((demo_pg 0 [demo_row 1])\<lparr>calls := 3\<rparr>))) = 1"
  using create_task_idempotent [OF demo_create _ pg_runs_refl demo_replay] by (simp add: table_ok_def)

definition all_executed :: "pg \<Rightarrow> bool" where
  "all_executed s \<longleftrightarrow> (\<forall>i. m_fault (future s i) = Healthy)"

lemma exec_executed:
  assumes "all_executed s"
  shows "exec env stmt s =
     (case before env s of (now, rs) \<Rightarrow>
        (case stmt (future s (calls s)) now rs of (res, rs') \<Rightarrow>
           (res, s\<lparr>clock := now, rows := rs', calls := Suc (calls s)\<rparr>)))"
  using assms by (simp add: exec_eq all_executed_def Let_def split: prod.split)

lemma by_key_executed:
  assumes "all_executed s" and "k \<in> c_key ` set (rows s)"
  shows "\<exists>t s'. GetTaskByIdempotencyKey env k s = (Inr t, s') \<and> IdempotencyKey t = k"
proof -
  obtain now rs where b: "before env s = (now, rs)" by fastforce
  have "evolves (rows s) rs"
    using db_steps_evolves [OF before_steps [of "\<lambda>_. True" s env]] b
    by (simp add: others_satisfy_def list_all_iff)
  with assms(2) have "\<exists>r\<in>set rs. c_key r = k"
    by (fastforce simp: same_task_def elim: evolvesE)
  then obtain r where "sql_by_key k rs = Some r" using find_not_NoneD [of _ rs "\<lambda>r. c_key r = k"]
    unfolding sql_by_key_def by blast
  moreover from this have "c_key r = k" unfolding sql_by_key_def by (blast dest: find_SomeD)
  ultimately show ?thesis
    by (simp add: GetTaskByIdempotencyKey_def query_row_def exec_executed [OF assms(1)] b
        select_def scan_task_def)
qed

text \<open>C14: Creation cannot fail by a race.  With the server executing every statement, a
  parsable key, storable columns and a fresh generated id, \<open>CreateTask\<close> returns a task
  with the requested key whatever the other processes do before and between its two
  statements; the lookup after a conflict never comes back empty.\<close>

theorem create_task_total:
  assumes "all_executed s"
    and "uuid_Parse env (req_IdempotencyKey req) = Inr key"
    and "marshal_payload env (req_Payload req) = Inr payload"
    and "pg_varchar255 (req_ServiceName req) = Inr svc"
    and "pg_varchar255 (req_UserEmail req) = Inr email"
    and "pg_opt (pg_jsonb (jsonb_in env)) payload = Inr stored_payload"
    and "m_uuid (future s (calls s)) \<notin> c_id ` set (snd (before env s))"
  shows "\<exists>t s'. CreateTask env req s = (Inr t, s') \<and> IdempotencyKey t = key"
proof -
  obtain now rs where b: "before env s = (now, rs)" by fastforce
  let ?s = "s\<lparr>clock := now, rows := rs, calls := Suc (calls s)\<rparr>"
  have "all_executed ?s" using assms(1) by (simp add: all_executed_def)
  from by_key_executed [OF this, of key env] assms show ?thesis
    by (auto simp: CreateTask_def query_row_def exec_executed [OF assms(1)] b sql_insert_def
        insert_row_def go_err scan_task_def)
qed

theorem create_task_total_witness:
  "\<exists>t s'. CreateTask demo_env demo_req (demo_pg 0 []) = (Inr t, s') \<and> IdempotencyKey t = 1"
  by (rule create_task_total [where payload = None and stored_payload = None and
        svc = "''test''" and email = "''user@example.com''"])
    (simp_all add: all_executed_def demo_defs marshal_payload_def before_def Let_def)


section \<open>The scans\<close>

text \<open>Whenever \<open>GetStaleInProgressTasks\<close> with the requeuer's threshold returns without
  an error, it returns exactly the rows of the table that are IN_PROGRESS with a heartbeat
  older than 30 seconds, each once; the duration string sent as the interval reads as
  30 seconds.\<close>

lemma stale_scan_exact:
  assumes "GetStaleInProgressTasks env staleLockThreshold s = ((ts, None), s')"
    and "interval_30s env"
  shows "mset ts = image_mset scan_task (mset (filter (is_stale 30000000 (clock s')) (rows s')))"
  using assms unfolding GetStaleInProgressTasks_def
  by (auto elim!: query_rows_tasks simp: interval_30s_def pg_interval_def sql_stale_def
      staleLockThreshold_def duration_String_30s split: sum.splits)

lemma demo_stale_scan:
  "GetStaleInProgressTasks demo_env staleLockThreshold (demo_pg 40000000 [demo_row 2, demo_running 1 5]) =
     (([scan_task (demo_running 1 5)], None),
      (demo_pg 40000000 [demo_row 2, demo_running 1 5])\<lparr>calls := 1\<rparr>)"
  by (simp add: GetStaleInProgressTasks_def query_rows_def demo_exec staleLockThreshold_def
      duration_String_30s pg_interval_def demo_env_def sql_stale_def is_stale_def demo_rows
      demo_moment_def Let_def)

text \<open>Whenever \<open>GetPendingScheduledTasks\<close> returns without an error, it returns exactly
  the PENDING rows whose \<open>scheduled_for\<close> is set and has come, each once.\<close>

lemma due_scan_exact:
  assumes "GetPendingScheduledTasks env s = ((ts, None), s')"
  shows "mset ts = image_mset scan_task (mset (filter (is_due (clock s')) (rows s')))"
  using assms unfolding GetPendingScheduledTasks_def
  by (auto elim!: query_rows_tasks simp: sql_due_def)

definition demo_due :: "uuid \<Rightarrow> instant \<Rightarrow> task_row" where
  "demo_due i at = default_row 0 i i ''test'' ''user@example.com'' None (Some at)"

section \<open>Updates\<close>

text \<open>C16: \<open>RequeueTask\<close> checks again.  Executed by the server at a moment \<open>now\<close> on the rows
  \<open>rs\<close> left by everybody else, it returns true exactly if the task is stale at that
  moment, and changes that row only; a task whose worker heartbeated, finished or lost the
  task since the scan is left alone and false is returned.\<close>

theorem requeue_rechecks:
  assumes "m_fault (future s (calls s)) = Healthy" and "interval_30s env"
    and "before env s = (now, rs)"
  shows "RequeueTask env i staleLockThreshold s =
    (Inr (\<exists>r\<in>set rs. c_id r = i \<and> is_stale 30000000 now r),
     s\<lparr>clock := now, calls := Suc (calls s),
       rows := map (\<lambda>r. if c_id r = i \<and> is_stale 30000000 now r
                        then touch now (release_row r) else r) rs\<rparr>)"
proof -
  let ?P = "\<lambda>r. c_id r = i \<and> is_stale 30000000 now r"
  have q: "sql_requeue i 30000000 now rs = (Inr (length (filter ?P rs)),
      map (\<lambda>r. if ?P r then touch now (release_row r) else r) rs)"
    by (simp add: sql_requeue_def sql_update_def list_all_iff)
  show ?thesis
    using assms(2) unfolding RequeueTask_def
    by (simp add: exec_eq assms(1,3) Let_def interval_30s_def pg_interval_def q
        staleLockThreshold_def duration_String_30s)
      (auto simp: filter_empty_conv)
qed

theorem requeue_rechecks_witness:
  "RequeueTask demo_env 1 staleLockThreshold (demo_pg 30 [demo_running 1 25]) =
     (Inr False, (demo_pg 30 [demo_running 1 25])\<lparr>calls := 1\<rparr>)"
  using requeue_rechecks [of "demo_pg 30 [demo_running 1 25]" demo_env 30 "[demo_running 1 25]" 1]
  by (simp add: before_def demo_moment_def Let_def demo_pg_def is_stale_def demo_rows)

text \<open>\<open>ClaimTask\<close>, executed by the server with a storable worker name on a sound table,
  returns the task exactly if it is PENDING and not scheduled for later; then the row
  alone becomes IN_PROGRESS, locked by the worker now, with one more attempt, and that
  row is what is returned.  Otherwise it returns nil and no error, and changes nothing.\<close>

lemma claim_exact:
  assumes "m_fault (future s (calls s)) = Healthy" and "before env s = (now, rs)"
    and "table_ok now rs" and "pg_varchar255 w = Inr w'" and "list_all attempts_room rs"
  shows "ClaimTask env i w s =
    (Inr (map_option (\<lambda>r. scan_task (touch now (claim_row now w' r))) (find (claimable now i) rs)),
     s\<lparr>clock := now, calls := Suc (calls s),
       rows := map (\<lambda>r. if claimable now i r then touch now (claim_row now w' r) else r) rs\<rparr>)"
proof -
  have "list_all (\<lambda>r. claimable now i r \<longrightarrow> attempts_room r) rs"
    using assms(5) by (simp add: list_all_iff)
  moreover have "filter (claimable now i) rs = (case find (claimable now i) rs of None \<Rightarrow> [] | Some r \<Rightarrow> [r])"
  proof (cases "find (claimable now i) rs")
    case None
    then have "filter (claimable now i) rs = []" by (simp add: find_None_iff filter_empty_conv)
    with None show ?thesis by simp
  next
    case (Some r)
    then have r: "r \<in> set rs" "claimable now i r" by (auto dest: find_SomeD)
    have "filter (claimable now i) rs = [r]"
      using assms(3) r by (intro filter_key_unique [where f = c_id]) (auto simp: table_ok_def claimable_def)
    with Some show ?thesis by simp
  qed
  ultimately show ?thesis
    by (simp add: ClaimTask_def query_row_def exec_eq assms(1,2,4) Let_def sql_claim_def
        sql_update_def go_err split: option.split)
qed

end
