(* ===== verification/Life_Props.thy ===== *)
theory Life_Props
  imports Repo_Props
begin

text \<open>
  The status of a task over its life: the edges a statement can take, terminal rows,
  unreachable and unbounded states, and the column values the schema guarantees.
\<close>

section \<open>Status values\<close>

text \<open>The six status constants of the Go package are exactly the labels the database
  enum admits, and the status scanned from a row is the constant of its enum value: no
  status is lost or renamed between the two type systems.\<close>

lemma status_constants_are_the_enum:
  "{s. enum_in s \<noteq> None} =
     {StatusPending, StatusInProgress, StatusSuccess, StatusFailed, StatusRetry, StatusDeadLetter} \<and>
   enum_in (Status (scan_task r)) = Some (c_status r)"
proof
  show "{s. enum_in s \<noteq> None} =
     {StatusPending, StatusInProgress, StatusSuccess, StatusFailed, StatusRetry, StatusDeadLetter}"
    by (auto simp: enum_in_def status_defs split: if_splits)
qed (simp add: scan_task_def)

section \<open>Edges\<close>

text \<open>C31: In the running system (nothing calls \<open>UpdateTaskStatus\<close>) every step of the
  database moves each task along an edge of the state machine: PENDING to IN_PROGRESS,
  RETRY to IN_PROGRESS, IN_PROGRESS to PENDING, RETRY, SUCCESS or DEAD_LETTER, or no
  change of status; nothing else.\<close>

theorem status_moves_along_edges:
  assumes "db_step J no_set_status (t, rs) (t', rs')" and "table_ok t rs" and "r \<in> set rs"
  shows "\<exists>r'\<in>set rs'. c_id r' = c_id r \<and> status_edge (c_status r) (c_status r')"
  using assms(1)
proof (cases rule: db_step.cases)
  case (statement a)
  have refl: "status_edge st st" for st by (cases st) simp_all
  show ?thesis
  proof (cases rule: action_cases [of rs J t a])
    case (insert newid key svc email p sched)
    then show ?thesis using statement assms(3) refl by auto
  next
    case (update f)
    have "row_ok t r" using assms(2,3) by (simp add: table_ok_def list_all_iff)
    with update(2) [OF assms(3)] row_update_edge [of t a r "f r"] statement(2) refl
    have "status_edge (c_status r) (c_status (f r))" by (metis statement(3))
    moreover have "c_id (f r) = c_id r"
      using in_place_frame(3) [of rs f t a r] update(2) assms(3) by (simp add: same_task_def)
    ultimately show ?thesis using assms(3) statement unfolding update(1) by auto
  qed
next
  case time
  have "status_edge st st" for st by (cases st) simp_all
  with time assms(3) show ?thesis by auto
qed

theorem status_moves_along_edges_witness:
  "\<exists>r'\<in>set [demo_running 1 5]. c_id r' = 1 \<and> status_edge PENDING (c_status r')"
proof -
  have "db_step Some no_set_status (5, [demo_row 1]) (5, [demo_running 1 5])"
    using db_step.statement [of no_set_status "WClaim 1 ''worker-1''" Some 5 "[demo_row 1]"] demo_claim
    by simp
  from status_moves_along_edges [OF this, of "demo_row 1"] show ?thesis
    by (simp add: table_ok_def row_ok_def demo_row_def default_row_def int4_max_def)
qed

text \<open>A finished task is final.  In the running system a SUCCESS or DEAD_LETTER row is
  never changed again, in any column, by any sequence of steps.\<close>

lemma terminal_rows_are_final:
  assumes "db_steps J no_set_status (t, rs) (t', rs')" and "table_ok t rs"
    and "r \<in> set rs" and "c_status r = SUCCESS \<or> c_status r = DEAD_LETTER"
  shows "r \<in> set rs'"
  using assms by (intro db_steps_keep_terminal [OF assms(1-3)]) (auto simp: terminal_def)

text \<open>C36: The status FAILED that the Go model documents is never reached: no sequence of
  steps of the running system from the empty table stores it.\<close>

theorem failed_is_unreachable:
  assumes "db_steps J no_set_status (t0, []) (t, rs)"
  shows "StatusFailed \<notin> Status ` scan_task ` set rs"
proof -
  have "list_all (\<lambda>r. c_status r \<noteq> FAILED) rs"
    using db_steps_rows [OF assms, of "\<lambda>r. c_status r \<noteq> FAILED"] row_update_not_failed by simp
  moreover have "enum_out st = StatusFailed \<longleftrightarrow> st = FAILED" for st
    by (cases st) (simp_all add: StatusFailed_def)
  ultimately have "Status (scan_task r) \<noteq> StatusFailed" if "r \<in> set rs" for r
    using that by (simp add: list_all_iff scan_task_def)
  then show ?thesis by fastforce
qed

theorem failed_is_unreachable_witness:
  "StatusFailed \<notin> Status ` scan_task ` set [demo_running 1 5]"
  by (rule failed_is_unreachable [OF demo_reach])


text \<open>Running means locked.  As long as \<open>UpdateTaskStatus\<close> is not used to write
  IN_PROGRESS, in every reachable table a task is IN_PROGRESS exactly if it has a lock
  time, so the requeuer's staleness test covers every running task.\<close>

lemma in_progress_iff_locked:
  assumes "db_steps J safe_action (t0, []) (t, rs)" and "r \<in> set rs"
  shows "c_status r = IN_PROGRESS \<longleftrightarrow> c_locked_at r \<noteq> None"
proof
  have "list_all (\<lambda>r. c_status r = IN_PROGRESS \<longrightarrow> c_locked_at r \<noteq> None) rs"
    using db_steps_rows [OF assms(1), of "\<lambda>r. c_status r = IN_PROGRESS \<longrightarrow> c_locked_at r \<noteq> None"]
      row_update_locked by simp
  then show "c_status r = IN_PROGRESS \<Longrightarrow> c_locked_at r \<noteq> None"
    using assms(2) by (simp add: list_all_iff)
  have "table_ok t rs" using db_steps_table_ok [OF assms(1)] by (simp add: table_ok_def)
  then show "c_locked_at r \<noteq> None \<Longrightarrow> c_status r = IN_PROGRESS"
    using assms(2) by (auto simp: table_ok_def list_all_iff row_ok_def)
qed

text \<open>
  A task that kills its worker: it is claimed, the heartbeat stops, the requeuer takes it
  back, and the next worker claims it.
\<close>

fun crash_action :: "db_action \<Rightarrow> bool" where
  "crash_action (Insert i k sv e p at) = True"
| "crash_action (WClaim i w) = True"
| "crash_action (Requeue i th) = (th = 30000000)"
| "crash_action a = False"

lemma crash_round:
  assumes "c_id r = i" and "c_status r = PENDING" and "c_attempts r < int4_max"
  shows "\<exists>t' r'. db_steps J crash_action (t, [r]) (t', [r']) \<and> c_id r' = i \<and>
    c_status r' = PENDING \<and> c_attempts r' = c_attempts r + 1 \<and> c_max r' = c_max r"
proof -
  define t' where "t' = t + 30000001"
  define r1 where "r1 = touch t (claim_row t ''worker-1'' r)"
  define r2 where "r2 = touch t' (release_row r1)"
  have 1: "db_steps J crash_action (t, [r]) (t, [r1])"
    using db_steps_statement [of crash_action "WClaim i ''worker-1''" J t "[r]"] assms
    by (simp add: worker_claimTask_def sql_update_def worker_claimable_def attempts_room_def r1_def)
  have 2: "db_steps J crash_action (t, [r1]) (t', [r1])"
    by (rule r_into_rtranclp) (rule db_step.time, simp add: t'_def)
  have "is_stale 30000000 t' r1" "c_id r1 = i"
    using assms(1) by (simp_all add: is_stale_def r1_def t'_def row_transformers)
  then have 3: "db_steps J crash_action (t', [r1]) (t', [r2])"
    using db_steps_statement [of crash_action "Requeue i 30000000" J t' "[r1]"]
    by (simp add: sql_requeue_def sql_update_def r2_def)
  have "c_id r2 = i" "c_status r2 = PENDING" "c_attempts r2 = c_attempts r + 1" "c_max r2 = c_max r"
    using assms(1) by (simp_all add: r1_def r2_def row_transformers)
  with rtranclp_trans [OF rtranclp_trans [OF 1 2] 3] show ?thesis by blast
qed

text \<open>C35: Attempts are not bounded by \<open>max_attempts\<close>.  For every number of attempts the
  column can hold, claims and requeues alone (a task whose worker dies every time) bring a
  new task to that number while it is still PENDING with the default maximum 3: neither
  the claim nor the requeue looks at \<open>max_attempts\<close>, so such a task is retried for ever and
  never reaches DEAD_LETTER.\<close>

theorem attempts_unbounded:
  assumes "n \<le> nat int4_max"
  shows "\<exists>t r. db_steps J crash_action (0, []) (t, [r]) \<and> c_id r = i \<and> c_status r = PENDING \<and>
    c_attempts r = int n \<and> c_max r = 3"
  using assms
proof (induction n)
  case 0
  have "db_steps J crash_action (0, [])
      (0, [default_row 0 i i ''test'' ''user@example.com'' None None])"
    using db_steps_statement [of crash_action "Insert i i ''test'' ''user@example.com'' None None" J 0 "[]"]
    by (simp add: sql_insert_def insert_row_def)
  then show ?case by (intro exI conjI) (auto simp: default_row_def)
next
  case (Suc n)
  then obtain t r where r: "db_steps J crash_action (0, []) (t, [r])" "c_id r = i"
    "c_status r = PENDING" "c_attempts r = int n" "c_max r = 3" by auto
  moreover from Suc.prems r(4) have "c_attempts r < int4_max" by (simp add: int4_max_def)
  ultimately obtain t' r' where "db_steps J crash_action (t, [r]) (t', [r'])" "c_id r' = i"
    "c_status r' = PENDING" "c_attempts r' = c_attempts r + 1" "c_max r' = c_max r"
    using crash_round [of r i J t] by blast
  with r show ?case by (intro exI [of _ t'] exI [of _ r']) (auto intro: rtranclp_trans)
qed

theorem attempts_unbounded_witness:
  "\<exists>t r. db_steps Some crash_action (0, []) (t, [r]) \<and> c_id r = 1 \<and> c_status r = PENDING \<and>
    c_attempts r = 4 \<and> c_max r = 3"
  using attempts_unbounded [of 4 Some 1] by (simp add: int4_max_def)


section \<open>Status updates and claims\<close>

text \<open>\<open>UpdateTaskStatus\<close>, executed by the server with a storable message, rejects a
  status outside the enum with a wrapped server error and changes nothing; otherwise it
  returns nil, gives the row with that id the status and message and clears its lock, and
  leaves every other row alone.  It is not fenced, and an unknown id is a silent success.\<close>

lemma update_status_exact:
  assumes "m_fault (future s (calls s)) = Healthy" and "before env s = (now, rs)"
    and "pg_opt pg_text err = Inr err'"
  shows "UpdateTaskStatus env i st err s =
    (case enum_in st of
       None \<Rightarrow>
         (Some (Wrapped ''repository: failed to update task status: ''
            (PgError ''22P02'' ''invalid input value for enum task_status'')),
          s\<lparr>clock := now, calls := Suc (calls s), rows := rs\<rparr>)
     | Some st' \<Rightarrow>
         (None, s\<lparr>clock := now, calls := Suc (calls s),
            rows := map (\<lambda>r. if c_id r = i then touch now (set_status_row st' err' r) else r) rs\<rparr>))"
  using assms
  by (simp add: UpdateTaskStatus_def exec_eq Let_def sql_set_status_def pg_status_def
      sql_update_def list_all_iff split: option.split)

text \<open>The two claims differ on scheduled tasks.  For a PENDING task whose
  \<open>scheduled_for\<close> is still to come, the Go \<open>ClaimTask\<close> never returns it, while the worker's
  claim of the same id at the same time takes it and leaves it IN_PROGRESS.\<close>

lemma claim_guards_differ:
  assumes "table_ok now rs" and "r \<in> set rs" and "c_id r = i" and "c_status r = PENDING"
    and "c_scheduled_for r = Some later" and "now < later"
    and "pg_varchar255 w = Inr w'" and "list_all attempts_room rs"
  shows "fst (sql_claim i w now rs) = Inr None \<and> snd (sql_claim i w now rs) = rs \<and>
    fst (worker_claimTask i w now rs) = Inr (Some (touch now (claim_row now w' r)))"
proof -
  have only: "x = r" if "x \<in> set rs" "c_id x = i" for x
    using distinct_key_eq [of c_id rs x r] assms(1-3) that by (simp add: table_ok_def)
  have ok: "list_all (\<lambda>r. P r \<longrightarrow> attempts_room r) rs" for P
    using assms(8) by (simp add: list_all_iff)
  have no: "\<not> claimable now i x" if "x \<in> set rs" for x
    using only [OF that] assms(5,6) by (auto simp: claimable_def)
  then have "filter (claimable now i) rs = []" by (simp add: filter_empty_conv)
  moreover have "map (\<lambda>r. if claimable now i r then touch now (claim_row now w' r) else r) rs = rs"
    using no by (simp add: map_idI)
  moreover have "filter (worker_claimable i) rs = [r]"
    using assms(1-4) by (intro filter_key_unique [where f = c_id]) (auto simp: table_ok_def worker_claimable_def)
  ultimately show ?thesis
    by (simp add: sql_claim_def worker_claimTask_def sql_update_def assms(7) ok)
qed

end
