(* ===== verification/Queue_Props.thy ===== *)
theory Queue_Props
  imports Life_Props
begin

text \<open>
  The background components of \<^verbatim>\<open>internal/queue\<close>: what one pass of the requeuer and of the
  scheduler does, when a crash is found, what no pass finds, and how the loops end.
\<close>

section \<open>The requeuer\<close>



text \<open>C28: Never a ghost task.  Whatever fails and whatever the other processes do during a
  pass of the requeuer, it only adds to the head of the pending list, and for every id it
  adds there was a state of the store during the pass in which that task was PENDING and
  unlocked.\<close>

theorem requeuer_pushes_waiting_tasks:
  assumes "lpush_law c items"
  shows "let w' = Requeuer_runOnce env (NewRequeuer (NewPostgresTaskRepo env) c) w in
    \<exists>pushed. pending items (redis w') = map (uuid_String env) pushed @ pending items (redis w) \<and>
      (\<forall>i\<in>set pushed. \<exists>s. pg_runs env no_set_status (store w) s \<and>
         pg_runs env no_set_status s (store w') \<and> waiting i (rows s))"
  using pg_repo.Requeuer_pushes [of "NewRequeuer (NewPostgresTaskRepo env) c" items env env w] assms
  by (simp add: NewRequeuer_def NewProducer_def Let_def)

theorem requeuer_pushes_waiting_tasks_witness:
  "\<exists>pushed. pending demo_items (redis (Requeuer_runOnce demo_env
      (NewRequeuer (NewPostgresTaskRepo demo_env) demo_redis) (demo_world 5 [demo_row 1]))) =
    map (uuid_String demo_env) pushed @ pending demo_items (redis (demo_world 5 [demo_row 1]))"
  using requeuer_pushes_waiting_tasks [OF demo_redis_law, of demo_env "demo_world 5 [demo_row 1]"]
  unfolding Let_def by blast

text \<open>C21: A crash is found in at most 40 seconds.  For a task whose last heartbeat was at
  \<open>l\<close>, with the requeuer's ticker started at \<open>t0\<close> no later than 30 seconds after it, there
  is a tick at which the task is stale, not later than threshold plus interval = 40
  seconds after \<open>l\<close>, and at every tick before that one it is not stale.\<close>

theorem crash_found_in_time:
  assumes "c_status r = IN_PROGRESS" and "c_locked_at r = Some l" and "t0 \<le> l + 30000000"
  shows "\<exists>k. is_stale (micros staleLockThreshold) (requeue_tick t0 k) r \<and>
    requeue_tick t0 k \<le> l + micros (staleLockThreshold + requeueInterval) \<and>
    l + micros (staleLockThreshold + requeueInterval) = l + 40000000 \<and>
    (\<forall>j<k. \<not> is_stale (micros staleLockThreshold) (requeue_tick t0 j) r)"
proof -
  have m: "micros staleLockThreshold = 30000000" "micros requeueInterval = 10000000"
    "micros (staleLockThreshold + requeueInterval) = 40000000"
    by (simp_all add: micros_def staleLockThreshold_def requeueInterval_def Second_def)
  obtain k :: nat where k: "l + 30000000 < t0 + int k * 10000000"
    "t0 + int k * 10000000 \<le> l + 30000000 + 10000000"
    "\<And>j. j < k \<Longrightarrow> t0 + int j * 10000000 \<le> l + 30000000"
    using first_tick_after [of t0 "l + 30000000" 10000000] assms(3) by auto
  show ?thesis
    by (rule exI [where x = k])
      (use k assms(1,2) in \<open>auto simp: m requeue_tick_def is_stale_def not_less\<close>)
qed

theorem crash_found_in_time_witness:
  "\<exists>k. is_stale (micros staleLockThreshold) (requeue_tick 0 k) (demo_running 1 5) \<and>
    requeue_tick 0 k \<le> 5 + micros (staleLockThreshold + requeueInterval)"
  using crash_found_in_time [of "demo_running 1 5" 5 0] by (auto simp: demo_rows)

section \<open>Tasks nobody enqueues\<close>

text \<open>C25: There is no safety net for a lost enqueue.  An unscheduled PENDING task or a RETRY
  task whose id is not in the pending list (because the push after its creation, its
  requeue or its failed attempt was lost) is never pushed by the background loops: after any
  interleaving of requeuer and scheduler passes, with other API servers writing to the
  table, the row is unchanged and the list has no more entries for it than before.\<close>

theorem lost_enqueue_is_never_repaired:
  assumes "lpush_law c items" and "unique_text env (c_id r)"
    and "r \<in> set (rows (store w))"
    and "(c_status r = PENDING \<and> c_scheduled_for r = None) \<or> c_status r = RETRY"
    and "table_ok (clock (store w)) (rows (store w))" and "others_satisfy api_action (store w)"
  shows "let w' = background env (NewRequeuer (NewPostgresTaskRepo env) c)
      (NewScheduler (NewPostgresTaskRepo env) c) passes w in
    r \<in> set (rows (store w')) \<and>
    entries env items (c_id r) (redis w') = entries env items (c_id r) (redis w)"
  using background_orphan [OF assms(1,2), of w passes] assms(3-)
  by (simp add: orphaned_def needs_worker_def Let_def)

theorem lost_enqueue_is_never_repaired_witness:
  "entries demo_env demo_items 1 (redis (background demo_env
      (NewRequeuer (NewPostgresTaskRepo demo_env) demo_redis)
      (NewScheduler (NewPostgresTaskRepo demo_env) demo_redis) [True, False, True]
      (demo_world 5 [demo_row 1]))) = 0"
proof -
  have "unique_text demo_env 1" by (simp add: unique_text_def demo_env_def demo_show_def demo_ids)
  moreover have "table_ok 5 [demo_row 1]" "others_satisfy api_action (demo_pg 5 [demo_row 1])"
    by (simp_all add: table_ok_def row_ok_def demo_rows int4_max_def others_satisfy_def)
  moreover have "entries demo_env demo_items 1 (redis (demo_world 5 [demo_row 1])) = 0"
    by (simp add: entries_def pending_def demo_items_def demo_world_def)
  ultimately show ?thesis
    using lost_enqueue_is_never_repaired [OF demo_redis_law, of demo_env "demo_row 1"
        "demo_world 5 [demo_row 1]" "[True, False, True]"]
    by (simp add: demo_rows Let_def del: background.simps)
qed


section \<open>The scheduler\<close>


lemma demo_due_ok: "table_ok 10 [demo_due 1 7]"
  by (simp add: table_ok_def row_ok_def demo_due_def default_row_def int4_max_def)


lemma entries_pushed:
  assumes "pending items q' = rev (map (uuid_String env) ids) @ pending items q"
    and "unique_text env i" and "distinct ids" and "i \<in> set ids"
  shows "entries env items i q' = Suc (entries env items i q)"
proof -
  have "uuid_String env j = uuid_String env i \<longleftrightarrow> j = i" for j
    using assms(2) by (auto simp: unique_text_def)
  then have "filter (\<lambda>v. v = uuid_String env i) (rev (map (uuid_String env) ids)) =
      rev (map (uuid_String env) (filter (\<lambda>j. j = i) ids))"
    by (simp add: rev_filter [symmetric] filter_map comp_def)
  then show ?thesis
    using assms(1,3,4) by (simp add: entries_def filter_eq_single)
qed

text \<open>A due task is pushed again by every pass until a worker claims it: the scheduler
  does not mark what it has pushed, so \<open>n\<close> passes with no claim in between add \<open>n\<close> entries
  for the same task to the pending list.\<close>

lemma due_task_pushed_every_pass:
  assumes "healthy (store w)" and "redis_up c" and "lpush_law c items"
    and "table_ok (clock (store w)) (rows (store w))" and "unique_text env (c_id r)"
    and "r \<in> set (rows (store w))" and "is_due (clock (store w)) r"
  shows "entries env items (c_id r)
      (redis ((Scheduler_runOnce env (NewScheduler (NewPostgresTaskRepo env) c) ^^ n) w)) =
    entries env items (c_id r) (redis w) + n"
proof -
  let ?run = "Scheduler_runOnce env (NewScheduler (NewPostgresTaskRepo env) c)"
  have step: "healthy (store (?run w)) \<and> distinct (map c_id (rows (store (?run w)))) \<and>
      r \<in> set (rows (store (?run w))) \<and> is_due (clock (store (?run w))) r \<and>
      entries env items (c_id r) (redis (?run w)) = Suc (entries env items (c_id r) (redis w))"
    if w: "healthy (store w) \<and> distinct (map c_id (rows (store w))) \<and> r \<in> set (rows (store w)) \<and>
      is_due (clock (store w)) r" for w
  proof -
    obtain now ids where now: "clock (store w) \<le> now" and ids: "distinct ids"
      "set ids = due_ids now (rows (store w))"
      and st: "store (?run w) = (store w)\<lparr>clock := now, rows := rows (store w), calls := Suc (calls (store w))\<rparr>"
      and p: "pending items (redis (?run w)) = rev (map (uuid_String env) ids) @ pending items (redis w)"
      using Scheduler_healthy [OF _ assms(2,3), of w env] w by blast
    have "is_due now r" using w now by (auto simp: is_due_def split: option.splits)
    then have "c_id r \<in> set ids" using w unfolding ids by (simp add: due_ids_def)
    from entries_pushed [OF p assms(5) ids(1) this] \<open>is_due now r\<close> w st show ?thesis by (simp add: healthy_def)
  qed
  have "healthy (store ((?run ^^ n) w)) \<and> distinct (map c_id (rows (store ((?run ^^ n) w)))) \<and>
      r \<in> set (rows (store ((?run ^^ n) w))) \<and> is_due (clock (store ((?run ^^ n) w))) r \<and>
      entries env items (c_id r) (redis ((?run ^^ n) w)) = entries env items (c_id r) (redis w) + n"
    using assms(1,4,6,7) step by (induction n) (simp_all add: table_ok_def)
  then show ?thesis by blast
qed

section \<open>The loops\<close>

lemma Requeuer_loop_passes:
  "Requeuer_loop_from env r es w =
     (let w' = (Requeuer_runOnce env r ^^ length (takeWhile (\<lambda>e. e = TickerC) es)) w in
      if CtxDone \<in> set es then (log (LogInfo ''requeue loop stopped'') w', False) else (w', True))"
  by (induction env r es w rule: Requeuer_loop_from.induct) (auto simp: Let_def funpow_swap1)

lemma Scheduler_loop_passes:
  "Scheduler_loop_from env sc es w =
     (let w' = (Scheduler_runOnce env sc ^^ length (takeWhile (\<lambda>e. e = TickerC) es)) w in
      if CtxDone \<in> set es then (log (LogInfo ''scheduler loop stopped'') w', False) else (w', True))"
  by (induction env sc es w rule: Scheduler_loop_from.induct) (auto simp: Let_def funpow_swap1)

text \<open>Each loop makes one pass per tick it receives before the context is cancelled, the
  scheduler one more at its start, and none after the cancellation: whatever ticks are
  still pending then, the loop logs that it stopped and returns.\<close>

lemma loops_pass_once_per_tick:
  "Requeuer_loop env r es w =
     (let w' = (Requeuer_runOnce env r ^^ length (takeWhile (\<lambda>e. e = TickerC) es))
         (log (LogInfo ''requeue loop started'') w)
      in if CtxDone \<in> set es then (log (LogInfo ''requeue loop stopped'') w', False) else (w', True)) \<and>
   Scheduler_loop env sc es w =
     (let w' = (Scheduler_runOnce env sc ^^ Suc (length (takeWhile (\<lambda>e. e = TickerC) es)))
         (log (LogInfo ''scheduler loop started'') w)
      in if CtxDone \<in> set es then (log (LogInfo ''scheduler loop stopped'') w', False) else (w', True))"
  by (simp add: Requeuer_loop_def Scheduler_loop_def Requeuer_loop_passes Scheduler_loop_passes
      Let_def funpow_swap1)

end
