(* ===== verification/Http_Props.thy ===== *)
theory Http_Props
  imports Queue_Props
begin

text \<open>
  The HTTP API: the status of every answer, what a creation stores, counts and enqueues,
  replays, lookups, the shape of the JSON, the screenshot's path, and the middleware.
\<close>

section \<open>POST /tasks\<close>

text \<open>C33: The status of \<^verbatim>\<open>POST /tasks\<close> is decided in the order of the code: 400 for a body
  that does not decode, 422 if the key, the service or the email is blank (white space
  only), 500 for any error of the repository, and else 201 exactly if the task's two
  timestamps are equal, 200 otherwise.\<close>

theorem create_status:
  assumes "w_sent w = None"
  shows "final_status (fst (Handler_CreateTask env h now r (w, g))) =
    (case json_Decode env (r_body r) of
       Inl txt \<Rightarrow> 400
     | Inr req \<Rightarrow>
         if blank (req_IdempotencyKey req) \<or> blank (req_ServiceName req) \<or> blank (req_UserEmail req)
         then 422
         else (case fst (repo_CreateTask (h_repo h) req (store g)) of
                 Inl e \<Rightarrow> 500
               | Inr task \<Rightarrow> if CreatedAt task = UpdatedAt task then 201 else 200))"
  using assms
  by (auto simp: Handler_CreateTask_def validateCreateTaskRequest_def missing_fields_def Let_def
      TrimSpace_Nil_iff writeError_def writeJSON_def writer_defs final_status_def is_new_def
      split: sum.split prod.split)

theorem create_status_witness:
  "final_status (fst (Handler_CreateTask demo_env
     (NewTaskHandler (NewPostgresTaskRepo demo_env) (NewProducer demo_redis)) 0 \<lparr>r_method = ''POST'', r_path = ''/tasks'',
     r_id = '''', r_body = ''x''\<rparr> (new_writer, demo_world 0 []))) = 400"
  using create_status [of new_writer demo_env
      "NewTaskHandler (NewPostgresTaskRepo demo_env) (NewProducer demo_redis)" 0 "\<lparr>r_method = ''POST'', r_path = ''/tasks'',
     r_id = '''', r_body = ''x''\<rparr>"
     "demo_world 0 []"]
  by (simp add: new_writer_def demo_env_def)

text \<open>Validation accepts a request exactly if none of the three required fields is
  blank; otherwise its message names exactly the blank ones, in order.\<close>

lemma validation_exact:
  "validateCreateTaskRequest req =
     (let missing = filter (\<lambda>(name, v). blank v)
            [(''idempotency_key'', req_IdempotencyKey req), (''service_name'', req_ServiceName req),
             (''user_email'', req_UserEmail req)]
      in if missing = [] then None
         else Some (ErrorString
           (strings_Join (map (\<lambda>(name, v). name @ '' is required'') missing) ''; '')))"
  by (simp add: validateCreateTaskRequest_def missing_fields_def TrimSpace_Nil_iff Let_def)

text \<open>A request whose columns the server accepts, and the values it stores.\<close>

definition storable ::
  "env \<Rightarrow> CreateTaskRequest \<Rightarrow> uuid \<Rightarrow> string \<Rightarrow> string \<Rightarrow> string option \<Rightarrow> bool" where
  "storable env req key svc email p \<longleftrightarrow>
     validateCreateTaskRequest req = None \<and>
     uuid_Parse env (req_IdempotencyKey req) = Inr key \<and>
     pg_varchar255 (req_ServiceName req) = Inr svc \<and> pg_varchar255 (req_UserEmail req) = Inr email \<and>
     (case marshal_payload env (req_Payload req) of Inl e \<Rightarrow> False
      | Inr b \<Rightarrow> pg_opt (pg_jsonb (jsonb_in env)) b = Inr p)"

lemma storableE:
  assumes "storable env req key svc email p"
  obtains b where "validateCreateTaskRequest req = None"
    and "uuid_Parse env (req_IdempotencyKey req) = Inr key"
    and "marshal_payload env (req_Payload req) = Inr b"
    and "\<forall>now i. insert_row (jsonb_in env) now i key (req_ServiceName req) (req_UserEmail req) b at =
      Inr (default_row now i key svc email p at)"
  using assms by (auto simp: storable_def insert_row_def split: sum.splits)

lemma CreateTask_new:
  assumes h: "healthy s" and "storable env req key svc email p"
    and "key \<notin> c_key ` set (rows s)" and "m_uuid (future s (calls s)) \<notin> c_id ` set (rows s)"
  obtains t where "CreateTask env req s =
    (Inr (scan_task (default_row t (m_uuid (future s (calls s))) key svc email p (req_ScheduledFor req))),
     s\<lparr>clock := t, calls := Suc (calls s),
       rows := rows s @ [default_row t (m_uuid (future s (calls s))) key svc email p (req_ScheduledFor req)]\<rparr>)"
proof -
  from assms(2) obtain b where "validateCreateTaskRequest req = None" "uuid_Parse env (req_IdempotencyKey req) = Inr key"
    "marshal_payload env (req_Payload req) = Inr b"
    "\<forall>now i. insert_row (jsonb_in env) now i key (req_ServiceName req) (req_UserEmail req) b
       (req_ScheduledFor req) = Inr (default_row now i key svc email p (req_ScheduledFor req))"
    by (rule storableE [where at = "req_ScheduledFor req"])
  with assms(3,4) show thesis
    by (intro that [of "clock s + int (m_elapsed (future s (calls s)))"])
      (simp add: CreateTask_def query_row_def exec_healthy [OF h] Let_def sql_insert_def)
qed

lemma CreateTask_existing:
  assumes h: "healthy s" and "storable env req (c_key r) svc email p"
    and "table_ok t (rows s)" and "r \<in> set (rows s)"
  obtains s' where "CreateTask env req s = (Inr (scan_task r), s')" and "rows s' = rows s"
proof -
  from assms(2) obtain b where b: "validateCreateTaskRequest req = None" "uuid_Parse env (req_IdempotencyKey req) = Inr (c_key r)"
    "marshal_payload env (req_Payload req) = Inr b"
    "\<forall>now i. insert_row (jsonb_in env) now i (c_key r) (req_ServiceName req) (req_UserEmail req) b
       (req_ScheduledFor req) = Inr (default_row now i (c_key r) svc email p (req_ScheduledFor req))"
    by (rule storableE [where at = "req_ScheduledFor req"])
  let ?s1 = "s\<lparr>clock := clock s + int (m_elapsed (future s (calls s))), calls := Suc (calls s)\<rparr>"
  let ?s2 = "?s1\<lparr>clock := clock ?s1 + int (m_elapsed (future s (Suc (calls s)))), calls := Suc (Suc (calls s))\<rparr>"
  have h1: "healthy ?s1" using h by (simp add: healthy_def)
  have "sql_by_key (c_key r) (rows s) = Some r"
    using assms(3,4) by (simp add: sql_by_key_def table_ok_def find_key_Some)
  with b assms(4) show thesis
    by (intro that [of ?s2])
      (simp_all add: CreateTask_def query_row_def exec_healthy [OF h] Let_def sql_insert_def go_err
        GetTaskByIdempotencyKey_def exec_healthy [OF h1] select_def)
qed

text \<open>What the handler does to the store is what its one call of the repository does.\<close>

lemma create_handler_runs:
  "Handler_CreateTask env (NewTaskHandler (NewPostgresTaskRepo env) p) now r (w, g) = (w', g') \<Longrightarrow>
   pg_runs env no_set_status (store g) (store g')"
  using pg_repo.create_reaches [of env "store g"]
  by (auto simp: Handler_CreateTask_def NewTaskHandler_def Let_def
      split: sum.splits option.splits prod.splits if_splits) (metis snd_conv)+

text \<open>The handler on a request with a new key, over a healthy store.\<close>

lemma Handler_CreateTask_new:
  assumes "healthy (store g)" and "redis_up c" and "lpush_law c items"
    and "json_Decode env (r_body r) = Inr req" and "storable env req key svc email p"
    and "key \<notin> c_key ` set (rows (store g))"
    and "newid = m_uuid (future (store g) (calls (store g)))"
    and "newid \<notin> c_id ` set (rows (store g))"
  obtains t w' g' where "Handler_CreateTask env
      (NewTaskHandler (NewPostgresTaskRepo env) (NewProducer c)) now r (new_writer, g) = (w', g')"
    and "final_status w' = 201"
    and "w_body w' = [JsonChunk (Task_json (uuid_String env)
           (scan_task (default_row t newid key svc email p (req_ScheduledFor req))))]"
    and "store g' = (store g)\<lparr>clock := t, calls := Suc (calls (store g)),
           rows := rows (store g) @ [default_row t newid key svc email p (req_ScheduledFor req)]\<rparr>"
    and "TasksCreatedTotal (meters g') svc = TasksCreatedTotal (meters g) svc + 1"
    and "TasksInProgress (meters g') = TasksInProgress (meters g) + 1"
    and "pending items (redis g') =
      (if is_scheduled_future now (scan_task (default_row t newid key svc email p (req_ScheduledFor req)))
       then [] else [uuid_String env newid]) @ pending items (redis g)"
proof -
  obtain t where ct: "CreateTask env req (store g) =
      (Inr (scan_task (default_row t newid key svc email p (req_ScheduledFor req))),
       (store g)\<lparr>clock := t, calls := Suc (calls (store g)),
         rows := rows (store g) @ [default_row t newid key svc email p (req_ScheduledFor req)]\<rparr>)"
    using CreateTask_new [OF assms(1,5,6)] assms(7,8) by blast
  obtain q' where q': "Enqueue env (NewProducer c) newid (redis g) = (None, q')"
    "pending items q' = uuid_String env newid # pending items (redis g)"
    using Enqueue_up [of "NewProducer c" items env newid "redis g"] assms(2,3)
    by (auto simp: NewProducer_def)
  have v: "validateCreateTaskRequest req = None" using assms(5) by (simp add: storable_def)
  show thesis
    by (rule that [of "fst (Handler_CreateTask env
            (NewTaskHandler (NewPostgresTaskRepo env) (NewProducer c)) now r (new_writer, g))"
          "snd (Handler_CreateTask env
            (NewTaskHandler (NewPostgresTaskRepo env) (NewProducer c)) now r (new_writer, g))" t])
      (simp_all add: Handler_CreateTask_def assms(4) v NewTaskHandler_def NewPostgresTaskRepo_def ct Let_def
        is_new_def scan_task_def default_row_def enqueue_created_def record_created_def q'
        writeJSON_def writer_defs final_status_def new_writer_def is_scheduled_future_def
        split: option.split)
qed

text \<open>C24: \<^verbatim>\<open>POST /tasks\<close> with a new key, over a healthy store and an answering Redis: the
  answer is 201 with the new task; exactly one PENDING row with the request's columns is
  appended and nothing else changes in the table; the service's counter and the gauge go
  up by one; the id is pushed exactly once, and only if the task is not scheduled for
  later.\<close>

theorem post_creates:
  assumes "healthy (store g)" and "redis_up c" and "lpush_law c items"
    and "json_Decode env (r_body r) = Inr req" and "storable env req key svc email p"
    and "key \<notin> c_key ` set (rows (store g))"
    and "m_uuid (future (store g) (calls (store g))) \<notin> c_id ` set (rows (store g))"
  shows "let newid = m_uuid (future (store g) (calls (store g)));
        (w', g') = Handler_CreateTask env (NewTaskHandler (NewPostgresTaskRepo env) (NewProducer c))
          now r (new_writer, g)
    in \<exists>t. let d = default_row t newid key svc email p (req_ScheduledFor req) in
      final_status w' = 201 \<and> w_body w' = [JsonChunk (Task_json (uuid_String env) (scan_task d))] \<and>
      rows (store g') = rows (store g) @ [d] \<and>
      TasksCreatedTotal (meters g') svc = TasksCreatedTotal (meters g) svc + 1 \<and>
      TasksInProgress (meters g') = TasksInProgress (meters g) + 1 \<and>
      pending items (redis g') =
        (if is_scheduled_future now (scan_task d) then [] else [uuid_String env newid]) @
        pending items (redis g)"
  unfolding Let_def
  by (rule Handler_CreateTask_new [where now = now, OF assms(1-6) refl assms(7)]) auto

definition demo_post :: request where
  "demo_post = \<lparr>r_method = ''POST'', r_path = ''/tasks'', r_id = '''', r_body = ''r''\<rparr>"

lemma demo_nonblank: "validateCreateTaskRequest demo_req = None"
  by (simp add: validateCreateTaskRequest_def missing_fields_def demo_req_def demo_id1_def
      TrimSpace_def ascii_space_def space2_def space3_def Let_def)

lemma demo_storable: "storable demo_env demo_req 1 ''test'' ''user@example.com'' None"
  using demo_nonblank
  by (simp add: storable_def demo_env_def demo_parse_def demo_req_def marshal_payload_def)

lemma demo_decode: "json_Decode demo_env (r_body demo_post) = Inr demo_req"
  by (simp add: demo_env_def demo_post_def)

theorem post_creates_witness:
  "\<exists>t. rows (store (snd (Handler_CreateTask demo_env
      (NewTaskHandler (NewPostgresTaskRepo demo_env) (NewProducer demo_redis)) 0 demo_post
      (new_writer, demo_world 0 [])))) =
    [default_row t 1 1 ''test'' ''user@example.com'' None None]"
  using post_creates [OF _ demo_redis_up demo_redis_law demo_decode demo_storable,
      of "demo_world 0 []" 0]
  by (auto simp: Let_def case_prod_beta demo_req_def)

text \<open>C27: \<^verbatim>\<open>POST /tasks\<close> again with the key of a stored task, over a healthy store and an
  answering Redis: the table does not change and the answer is the stored task.  But the
  handler takes equal timestamps for a new task: while no statement has updated the row,
  every replay is answered 201, counted again and, unless scheduled for later, pushed
  again; only after the first update is it answered 200 with no further effect.\<close>

theorem post_replay:
  assumes "healthy (store g)" and "redis_up c" and "lpush_law c items"
    and "json_Decode env (r_body r) = Inr req" and "storable env req (c_key x) svc email p"
    and "table_ok t (rows (store g))" and "x \<in> set (rows (store g))"
  shows "let (w', g') = Handler_CreateTask env
          (NewTaskHandler (NewPostgresTaskRepo env) (NewProducer c)) now r (new_writer, g);
        untouched = (c_created_at x = c_updated_at x)
    in final_status w' = (if untouched then 201 else 200) \<and>
      w_body w' = [JsonChunk (Task_json (uuid_String env) (scan_task x))] \<and>
      rows (store g') = rows (store g) \<and>
      TasksCreatedTotal (meters g') (c_service x) =
        TasksCreatedTotal (meters g) (c_service x) + (if untouched then 1 else 0) \<and>
      pending items (redis g') =
        (if untouched \<and> \<not> is_scheduled_future now (scan_task x) then [uuid_String env (c_id x)] else []) @
        pending items (redis g)"
proof -
  obtain s' where ct: "CreateTask env req (store g) = (Inr (scan_task x), s')"
    "rows s' = rows (store g)"
    using CreateTask_existing [OF assms(1,5-7)] by blast
  obtain q' where q': "Enqueue env (NewProducer c) (c_id x) (redis g) = (None, q')"
    "pending items q' = uuid_String env (c_id x) # pending items (redis g)"
    using Enqueue_up [of "NewProducer c" items env "c_id x" "redis g"] assms(2,3)
    by (auto simp: NewProducer_def)
  have v: "validateCreateTaskRequest req = None" using assms(5) by (simp add: storable_def)
  show ?thesis
    unfolding Let_def
    by (simp add: Handler_CreateTask_def assms(4) v NewTaskHandler_def NewPostgresTaskRepo_def ct Let_def
        is_new_def scan_task_def enqueue_created_def record_created_def q'
        writeJSON_def writer_defs final_status_def new_writer_def is_scheduled_future_def)
qed

theorem post_replay_witness:
  "pending demo_items (redis (snd (Handler_CreateTask demo_env
      (NewTaskHandler (NewPostgresTaskRepo demo_env) (NewProducer demo_redis)) 0 demo_post
      (new_writer, demo_world 5 [demo_row 1])))) = [demo_id1]"
proof -
  have "table_ok 5 [demo_row 1]" by (simp add: table_ok_def row_ok_def demo_rows int4_max_def)
  moreover have "c_key (demo_row 1) = 1" by (simp add: demo_row_def)
  ultimately show ?thesis
    using post_replay [OF _ demo_redis_up demo_redis_law demo_decode, of "demo_world 5 [demo_row 1]"
        "demo_row 1" "''test''" "''user@example.com''" None 5 0] demo_storable
    by (simp add: Let_def case_prod_beta demo_env_def demo_rows scan_task_def
        is_scheduled_future_def demo_world_def pending_def demo_items_def demo_show_def)
qed

text \<open>A failed push is not reported to the client.  If storing a new, unscheduled task
  succeeds and the push to Redis fails without adding the entry, the answer is still 201
  and the metrics count the task, but the pending list has no entry for it: only a log
  message says so, and the row stays PENDING and unscheduled.\<close>

lemma failed_push_still_created:
  assumes "healthy (store g)" and "json_Decode env (r_body r) = Inr req"
    and "storable env req key svc email p" and "req_ScheduledFor req = None"
    and "key \<notin> c_key ` set (rows (store g))"
    and "m_uuid (future (store g) (calls (store g))) \<notin> c_id ` set (rows (store g))"
    and "c TaskQueueKey (uuid_String env (m_uuid (future (store g) (calls (store g))))) (redis g) = (Some txt, q')"
    and "pending items q' = pending items (redis g)"
  shows "let (w', g') = Handler_CreateTask env
          (NewTaskHandler (NewPostgresTaskRepo env) (NewProducer c)) now r (new_writer, g)
    in final_status w' = 201 \<and>
      (\<exists>d. rows (store g') = rows (store g) @ [d] \<and> c_status d = PENDING \<and> c_scheduled_for d = None) \<and>
      pending items (redis g') = pending items (redis g) \<and>
      logs g' = logs g @ [LogError ''failed to enqueue task after creation'']"
proof -
  let ?newid = "m_uuid (future (store g) (calls (store g)))"
  obtain t where ct: "CreateTask env req (store g) =
      (Inr (scan_task (default_row t ?newid key svc email p (req_ScheduledFor req))),
       (store g)\<lparr>clock := t, calls := Suc (calls (store g)),
         rows := rows (store g) @ [default_row t ?newid key svc email p (req_ScheduledFor req)]\<rparr>)"
    using CreateTask_new [OF assms(1,3,5,6)] by blast
  have e: "\<exists>err. Enqueue env (NewProducer c) ?newid (redis g) = (Some err, q')"
    using assms(7) by (simp add: Enqueue_def NewProducer_def)
  have v: "validateCreateTaskRequest req = None" using assms(3) by (simp add: storable_def)
  from e show ?thesis
    unfolding Let_def
    by (auto simp: Handler_CreateTask_def assms(2,4,8) v NewTaskHandler_def NewPostgresTaskRepo_def ct
        Let_def is_new_def scan_task_def default_row_def enqueue_created_def record_created_def
        writeJSON_def writer_defs final_status_def new_writer_def is_scheduled_future_def log_def)
qed

definition demo_redis_down :: "demo_queue redis_client" where
  "demo_redis_down k v q = (Some ''connection refused'', q)"

section \<open>GET /tasks/{id}\<close>

text \<open>C37: \<^verbatim>\<open>GET /tasks/{id}\<close> over a healthy store: 400 for an empty or unparsable id, 404 if
  no task has the id, and else 200 with the JSON of the stored row; the table, the queue
  and the metrics are untouched.\<close>

theorem get_task_exact:
  assumes "healthy (store g)"
  shows "let (w', g') = Handler_GetTask env (NewTaskHandler (NewPostgresTaskRepo env) p) r (new_writer, g)
    in (final_status w', w_body w') =
        (if r_id r = '''' then (400, [JsonChunk (JObj [(''error'', JStr ''missing task id'')])])
         else (case uuid_Parse env (r_id r) of
             Inl txt \<Rightarrow>
               (400, [JsonChunk (JObj [(''error'', JStr ''invalid task id format: must be a UUID'')])])
           | Inr i \<Rightarrow>
               (case find (\<lambda>x. c_id x = i) (rows (store g)) of
                  None \<Rightarrow> (404, [JsonChunk (JObj [(''error'', JStr ''task not found'')])])
                | Some x \<Rightarrow> (200, [JsonChunk (Task_json (uuid_String env) (scan_task x))])))) \<and>
      rows (store g') = rows (store g) \<and> redis g' = redis g \<and> meters g' = meters g"
  unfolding Let_def
  by (simp add: Handler_GetTask_def parseUUID_def NewTaskHandler_def NewPostgresTaskRepo_def
      GetTaskByID_def query_row_def exec_healthy [OF assms] Let_def select_def sql_by_id_def go_err
      writeError_def writeJSON_def writer_defs final_status_def new_writer_def
      split: sum.split option.split)

definition demo_get :: "string \<Rightarrow> request" where
  "demo_get i = \<lparr>r_method = ''GET'', r_path = ''/tasks/'' @ i, r_id = i, r_body = ''''\<rparr>"

theorem get_task_exact_witness:
  "final_status (fst (Handler_GetTask demo_env (NewTaskHandler (NewPostgresTaskRepo demo_env)
      (NewProducer demo_redis)) (demo_get demo_id2) (new_writer, demo_world 5 [demo_row 1]))) = 404"
  using get_task_exact [of "demo_world 5 [demo_row 1]" demo_env "NewProducer demo_redis" "demo_get demo_id2"]
  by (simp add: Let_def case_prod_beta demo_get_def demo_env_def demo_parse_def demo_ids demo_rows)

section \<open>The JSON of a task\<close>

text \<open>The lock is never exposed: the JSON of a task has no member for the lock time or
  the lock owner and does not depend on them.\<close>

lemma response_hides_lock:
  "json_member ''locked_at'' (Task_json show_id t) = None \<and>
   json_member ''locked_by'' (Task_json show_id t) = None \<and>
   Task_json show_id (t\<lparr>LockedAt := l, LockedBy := o'\<rparr>) = Task_json show_id t"
  by (auto simp: Task_json_def omitempty_def split: option.split)

text \<open>C38: A stored payload reaches the client as a base64 string that decodes to exactly the
  stored bytes; it is not a JSON object.  A null or empty payload is left out.\<close>

theorem payload_roundtrip:
  "(case Payload t of
      None \<Rightarrow> json_member ''payload'' (Task_json show_id t) = None
    | Some b \<Rightarrow>
        if b = [] then json_member ''payload'' (Task_json show_id t) = None
        else \<exists>s. json_member ''payload'' (Task_json show_id t) = Some (JStr s) \<and> b64_decode s = b)"
  by (auto simp: Task_json_def omitempty_def payload_json_def b64_roundtrip split: option.split)

section \<open>GET /tasks/{id}/screenshot\<close>

text \<open>
  The spellings \<^verbatim>\<open>uuid.Parse\<close> documents: the canonical 36 characters, the same after
  \<^verbatim>\<open>urn:uuid:\<close> (in any case), the same between two bytes (the braces of the Microsoft form,
  which are skipped unread), and 32 hex digits.
\<close>

definition is_hex :: "char \<Rightarrow> bool" where
  "is_hex c \<longleftrightarrow> c \<in> set ''0123456789abcdefABCDEF''"

definition canonical :: "string \<Rightarrow> bool" where
  "canonical s \<longleftrightarrow> length s = 36 \<and>
     list_all (\<lambda>(i, c). if i \<in> {8, 13, 18, 23} then c = CHR ''-'' else is_hex c) (enumerate 0 s)"

definition uuid_shape :: "string \<Rightarrow> bool" where
  "uuid_shape s \<longleftrightarrow> canonical s \<or>
     (canonical (drop 9 s) \<and> list_all (\<lambda>c. c \<in> set ''urn:idURNID'') (take 9 s)) \<or>
     (length s = 38 \<and> canonical (take 36 (drop 1 s))) \<or> (length s = 32 \<and> list_all is_hex s)"

definition uuid_parse_law :: "env \<Rightarrow> bool" where
  "uuid_parse_law env \<longleftrightarrow> (\<forall>s i. uuid_Parse env s = Inr i \<longrightarrow> uuid_shape s)"

text \<open>Two adjacent dots; no component is \<^verbatim>\<open>..\<close> without them.\<close>

fun has_dotdot :: "string \<Rightarrow> bool" where
  "has_dotdot (a # b # s) = ((a = CHR ''.'' \<and> b = CHR ''.'') \<or> has_dotdot (b # s))"
| "has_dotdot s = False"

lemma has_dotdot_Cons: "has_dotdot s \<Longrightarrow> has_dotdot (c # s)"
  by (cases s) simp_all

lemma dotdot_prefix: "split_slash s = (''.'' @ x) # xs \<Longrightarrow> \<exists>s'. s = CHR ''.'' # s'"
  by (cases s) (auto split: if_splits list.splits)

lemma dotdot_component: "''..'' \<in> set (split_slash s) \<Longrightarrow> has_dotdot s"
proof (induction s)
  case Nil
  then show ?case by simp
next
  case (Cons c s)
  show ?case
  proof (cases "c = CHR ''/''")
    case True
    with Cons show ?thesis by (simp add: has_dotdot_Cons)
  next
    case False
    obtain x xs where x: "split_slash s = x # xs" using split_slash_not_Nil by (meson neq_Nil_conv)
    with False Cons.prems consider "c = CHR ''.''" "x = ''.''" | "''..'' \<in> set (split_slash s)" by auto
    then show ?thesis
    proof cases
      case 1
      with dotdot_prefix [of s "[]" xs] x obtain s' where "s = CHR ''.'' # s'" by auto
      with 1 show ?thesis by simp
    next
      case 2
      with Cons.IH show ?thesis by (simp add: has_dotdot_Cons)
    qed
  qed
qed

lemma has_dotdot_append:
  "CHR ''.'' \<notin> set t \<Longrightarrow> has_dotdot (t @ u) = has_dotdot u"
proof (induction t)
  case Nil
  then show ?case by simp
next
  case (Cons a t)
  then show ?case by (cases "t @ u") auto
qed

lemma is_hex_plain: "is_hex c \<Longrightarrow> c \<noteq> CHR ''.''"
  by (auto simp: is_hex_def)

lemma canonical_plain: "canonical s \<Longrightarrow> CHR ''.'' \<notin> set s \<and> s \<noteq> []"
proof
  assume c: "canonical s"
  then show "s \<noteq> []" by (auto simp: canonical_def)
  show "CHR ''.'' \<notin> set s"
  proof
    assume "CHR ''.'' \<in> set s"
    then obtain i where "i < length s" "s ! i = CHR ''.''" by (auto simp: in_set_conv_nth)
    then have "(i, CHR ''.'') \<in> set (enumerate 0 s)" by (force simp: in_set_enumerate_eq)
    with c is_hex_plain [of "CHR ''.''"] show False
      by (auto simp: canonical_def list_all_iff split: if_splits)
  qed
qed

lemma shape_no_dotdot:
  assumes "uuid_shape s"
  shows "\<not> has_dotdot (s @ ''-latest.png'')"
proof -
  have tail: "\<not> has_dotdot (b # ''-latest.png'')" "\<not> has_dotdot ''-latest.png''" for b
    by simp_all
  from assms consider "CHR ''.'' \<notin> set s"
    | "canonical (drop 9 s)" "list_all (\<lambda>c. c \<in> set ''urn:idURNID'') (take 9 s)"
    | "length s = 38" "canonical (take 36 (drop 1 s))"
    unfolding uuid_shape_def using canonical_plain is_hex_plain by (auto simp: list_all_iff)
  then show ?thesis
  proof cases
    case 1
    with tail show ?thesis by (simp add: has_dotdot_append)
  next
    case 2
    then have "CHR ''.'' \<notin> set (take 9 s)" unfolding list_all_iff by (intro notI) (drule (1) bspec, simp)
    moreover have "set s = set (take 9 s) \<union> set (drop 9 s)" by (metis append_take_drop_id set_append)
    ultimately have "CHR ''.'' \<notin> set s" using canonical_plain [OF 2(1)] by simp
    with tail show ?thesis by (simp add: has_dotdot_append)
  next
    case 3
    define t where "t = take 36 (drop 1 s)"
    have "length (drop 37 s) = 1" using 3 by simp
    then obtain b where b: "drop 37 s = [b]" by (metis One_nat_def length_0_conv length_Suc_conv)
    obtain a s' where s: "s = a # s'" using 3 by (cases s) auto
    then have "s = a # t @ [b]"
      using b append_take_drop_id [of 36 s'] by (simp add: t_def)
    moreover have t: "CHR ''.'' \<notin> set t" "t \<noteq> []" using 3 canonical_plain by (simp_all add: t_def)
    moreover have "has_dotdot (a # t @ b # ''-latest.png'') = has_dotdot (t @ b # ''-latest.png'')"
      using t by (cases t) auto
    ultimately show ?thesis using has_dotdot_append [OF t(1)] tail by simp
  qed
qed

text \<open>C32: The screenshot's path never leaves the evidence directory.  For every id that
  \<^verbatim>\<open>uuid.Parse\<close> accepts (in any of its documented spellings, some of which may hold dots or
  slashes), the joined path is the cleaned directory followed by the plain components of
  the file name, none of which is \<^verbatim>\<open>..\<close>.\<close>

theorem screenshot_path_confined:
  assumes "uuid_parse_law env" and "parseUUID env s = Inr i"
  shows "image_path sys s =
      render (rooted (evidence_dir sys))
        (path_comps (evidence_dir sys) @ filter plain_comp (split_slash (s @ ''-latest.png''))) \<and>
    ''..'' \<notin> set (split_slash (s @ ''-latest.png''))"
proof
  have "uuid_shape s"
    using assms by (auto simp: uuid_parse_law_def parseUUID_def split: sum.splits)
  then show no: "''..'' \<notin> set (split_slash (s @ ''-latest.png''))"
    using dotdot_component shape_no_dotdot by blast
  have "evidence_dir sys \<noteq> []" by (simp add: evidence_dir_def Let_def)
  then show "image_path sys s =
      render (rooted (evidence_dir sys))
        (path_comps (evidence_dir sys) @ filter plain_comp (split_slash (s @ ''-latest.png'')))"
    unfolding image_path_def by (rule Join_below [OF _ no])
qed

definition demo_os :: os where
  "demo_os = \<lparr>LookupEnv = (\<lambda>k. None), os_Open = (\<lambda>p. NotExist)\<rparr>"

theorem screenshot_path_confined_witness:
  "image_path demo_os demo_id1 = ''evidence/'' @ demo_id1 @ ''-latest.png''"
proof -
  have "uuid_parse_law demo_env"
    by (auto simp: uuid_parse_law_def demo_env_def demo_parse_def demo_ids uuid_shape_def
        canonical_def is_hex_def enumerate_eq_zip split: if_splits)
  moreover have "parseUUID demo_env demo_id1 = Inr 1"
    by (simp add: parseUUID_def demo_env_def demo_parse_def)
  ultimately show ?thesis
    using screenshot_path_confined [of demo_env demo_id1 1 demo_os]
    by (simp add: demo_os_def demo_ids evidence_dir_def os_Getenv_def Let_def rooted_def
        path_comps_def plain_comp_def render_def)
qed

end
