(* ===== verification/Server_Props.thy ===== *)
theory Server_Props
  imports Http_Props
begin

text \<open>
  The assembled server: the metric of every request, CORS, routing, the connection
  settings, and the order of start-up and shutdown.
\<close>

section \<open>The middleware\<close>

text \<open>C23: Each instrumented route adds exactly one observation per request to the latency
  histogram, labelled with the request's method, the route's pattern (never the URL) and
  the status the client receives, whatever the handler does.\<close>

theorem observed_is_sent:
  assumes "dispatch env h sys now prom rt r (new_writer, g) = (w', g')"
    and "rt = R_CreateTask \<or> rt = R_GetTask \<or> rt = R_Screenshot"
  shows "HTTPRequestDuration (meters g') =
      HTTPRequestDuration (meters g) @ [(r_method r, pattern_label rt, Itoa (final_status w'))] \<and>
    w_sent w' \<noteq> None"
proof -
  have nw: "w_sent new_writer = None" by (simp add: new_writer_def)
  from assms(2) consider "rt = R_CreateTask" | "rt = R_GetTask" | "rt = R_Screenshot" by blast
  then show ?thesis
  proof cases
    case 1
    with create_h.observed_status [OF nw, of "pattern_label rt" env h now r g w' g'] assms(1)
    show ?thesis by (simp add: dispatch_def)
  next
    case 2
    with get_h.observed_status [OF nw, of "pattern_label rt" env h r g w' g'] assms(1)
    show ?thesis by (simp add: dispatch_def)
  next
    case 3
    with screenshot_h.observed_status [OF nw, of "pattern_label rt" env sys r g w' g'] assms(1)
    show ?thesis by (simp add: dispatch_def)
  qed
qed

theorem observed_is_sent_witness:
  "HTTPRequestDuration (meters (snd (dispatch demo_env
     (NewTaskHandler (NewPostgresTaskRepo demo_env) (NewProducer demo_redis))
     demo_os 0 (\<lambda>r st. st) R_Screenshot (demo_get demo_id1)
     (new_writer, demo_world 5 [demo_row 1])))) = [(''GET'', ''GET /tasks/{id}/screenshot'', ''404'')]"
proof -
  let ?res = "dispatch demo_env
     (NewTaskHandler (NewPostgresTaskRepo demo_env) (NewProducer demo_redis))
     demo_os 0 (\<lambda>r st. st) R_Screenshot (demo_get demo_id1)
     (new_writer, demo_world 5 [demo_row 1])"
  have s: "final_status (fst ?res) = 404"
    by (simp add: dispatch_def InstrumentHandler_def Handler_GetTaskScreenshot_def parseUUID_def
        demo_get_def demo_env_def demo_parse_def demo_os_def no_cache_def writer_defs Let_def
        final_status_def new_writer_def)
  have "Itoa 404 = ''404''" by (simp add: Itoa_def dec.simps digit_def)
  with s observed_is_sent [of demo_env "NewTaskHandler (NewPostgresTaskRepo demo_env) (NewProducer demo_redis)"
      demo_os 0 "\<lambda>r st. st" R_Screenshot "demo_get demo_id1"
      "demo_world 5 [demo_row 1]" "fst ?res" "snd ?res"]
  show ?thesis by (simp add: demo_get_def demo_world_def new_metrics_def pattern_label_def)
qed

text \<open>A handler keeps a header that was set before it, and sends it with its one status line.\<close>

definition keeps_origin :: "('s, 'q) handler \<Rightarrow> bool" where
  "keeps_origin h \<longleftrightarrow> (\<forall>r w g. w_sent w = None \<longrightarrow>
     map_of (w_header w) ''Access-Control-Allow-Origin'' = Some ''*'' \<longrightarrow>
     (\<exists>code hdr. w_sent (fst (h r (w, g))) = Some (code, hdr) \<and>
        map_of hdr ''Access-Control-Allow-Origin'' = Some ''*''))"

lemma keeps_originI:
  assumes "\<And>r w g. w_sent w = None \<Longrightarrow>
      map_of (w_header w) ''Access-Control-Allow-Origin'' = Some ''*'' \<Longrightarrow>
      \<exists>code hdr. w_sent (fst (h r (w, g))) = Some (code, hdr) \<and>
        map_of hdr ''Access-Control-Allow-Origin'' = Some ''*''"
  shows "keeps_origin h"
  using assms unfolding keeps_origin_def by blast

lemma writeJSON_origin:
  "w_sent w = None \<Longrightarrow> map_of (w_header w) ''Access-Control-Allow-Origin'' = Some ''*'' \<Longrightarrow>
   \<exists>code hdr. w_sent (writeJSON c v w) = Some (code, hdr) \<and>
     map_of hdr ''Access-Control-Allow-Origin'' = Some ''*''"
  by (simp add: writeJSON_def writer_defs update_conv')

lemma create_origin: "keeps_origin (Handler_CreateTask env h now)"
  by (rule keeps_originI)
    (simp add: Handler_CreateTask_def Let_def writeError_def writeJSON_origin
      split: sum.split option.split prod.split)

lemma get_origin: "keeps_origin (Handler_GetTask env h)"
  by (rule keeps_originI)
    (simp add: Handler_GetTask_def Let_def writeError_def writeJSON_origin
      split: sum.split prod.split)

lemma screenshot_origin: "keeps_origin (Handler_GetTaskScreenshot env sys)"
  by (rule keeps_originI)
    (simp add: Handler_GetTaskScreenshot_def Let_def writeError_def writeJSON_def no_cache_def
      writer_defs update_conv' split: sum.split open_result.split)

lemma health_origin: "keeps_origin health_handler"
  by (rule keeps_originI) (simp add: health_handler_def writer_defs update_conv')

lemma instrument_origin:
  assumes "keeps_origin h"
  shows "keeps_origin (InstrumentHandler path h)"
proof (rule keeps_originI)
  fix r :: request and w :: writer and g
  assume w: "w_sent w = None" "map_of (w_header w) ''Access-Control-Allow-Origin'' = Some ''*''"
  have "fst (InstrumentHandler path h r (w, g)) = fst (h r (w\<lparr>w_recorded := StatusOK\<rparr>, g))"
    by (simp add: InstrumentHandler_def Let_def split: prod.split)
  then show "\<exists>code hdr. w_sent (fst (InstrumentHandler path h r (w, g))) = Some (code, hdr) \<and>
       map_of hdr ''Access-Control-Allow-Origin'' = Some ''*''"
    using assms w by (simp add: keeps_origin_def)
qed

lemma dispatch_origin:
  "keeps_origin prom \<Longrightarrow> keeps_origin (dispatch env h sys now prom rt)"
  by (cases rt) (simp_all add: dispatch_def [abs_def] create_origin get_origin screenshot_origin
      health_origin instrument_origin)

lemma mux_origin: "keeps_origin prom \<Longrightarrow> keeps_origin (mux env h sys now prom)"
proof (rule keeps_originI)
  fix r :: request and w :: writer and g :: "('a, 'b) world"
  assume "keeps_origin prom" and w: "w_sent w = None"
    "map_of (w_header w) ''Access-Control-Allow-Origin'' = Some ''*''"
  with dispatch_origin [of prom env h sys now] show
    "\<exists>code hdr. w_sent (fst (mux env h sys now prom r (w, g))) = Some (code, hdr) \<and>
       map_of hdr ''Access-Control-Allow-Origin'' = Some ''*''"
    by (auto simp: mux_def Let_def keeps_origin_def writer_defs http_MethodNotAllowed_def
        update_conv' split: option.split)
qed

text \<open>C40: Every answer of the server can be read by the browser: whatever the method, the
  path and the outcome (404, 405, 422 and 500 included), the headers sent with the status
  line allow any origin, provided the metrics handler keeps the header; and an OPTIONS
  request on any path is answered 204 with no effect on the store, the queue or the
  metrics.\<close>

theorem cors_on_every_answer:
  assumes "keeps_origin prom"
    and "Handler (New env sys c prom) now r (new_writer, g) = (w', g')"
  shows "(\<exists>code hdr. w_sent w' = Some (code, hdr) \<and>
      map_of hdr ''Access-Control-Allow-Origin'' = Some ''*'') \<and>
    (r_method r = ''OPTIONS'' \<longrightarrow> final_status w' = 204 \<and> g' = g)"
proof -
  let ?cors = "[(''Access-Control-Allow-Origin'', ''*''),
        (''Access-Control-Allow-Methods'', ''GET, POST, OPTIONS''),
        (''Access-Control-Allow-Headers'', ''Content-Type'')]"
  let ?mux = "mux env (NewTaskHandler (NewPostgresTaskRepo env) (NewProducer c)) sys now prom"
  have h: "Handler (New env sys c prom) now r (new_writer, g) =
     (if r_method r = ''OPTIONS''
      then (new_writer\<lparr>w_header := ?cors, w_sent := Some (204, ?cors), w_recorded := 204\<rparr>, g)
      else ?mux r (new_writer\<lparr>w_header := ?cors\<rparr>, g))"
    by (simp add: New_def corsMiddleware_def new_writer_def writer_defs Let_def)
  have "\<exists>code hdr. w_sent (fst (?mux r (new_writer\<lparr>w_header := ?cors\<rparr>, g))) = Some (code, hdr) \<and>
      map_of hdr ''Access-Control-Allow-Origin'' = Some ''*''"
    using mux_origin [OF assms(1), of env _ sys now] unfolding keeps_origin_def
    by (simp add: new_writer_def)
  then show ?thesis
    using h assms(2)
    by (cases "r_method r = ''OPTIONS''") (auto simp: final_status_def dest!: arg_cong [where f = fst])
qed

theorem cors_on_every_answer_witness:
  "\<exists>code hdr. w_sent (fst (Handler (New demo_env demo_os demo_redis (\<lambda>r (w, g). (WriteHeader 200 w, g))) 0
       (demo_get demo_id1) (new_writer, demo_world 5 []))) = Some (code, hdr) \<and>
     map_of hdr ''Access-Control-Allow-Origin'' = Some ''*''"
proof -
  have "keeps_origin (\<lambda>r (w, g). (WriteHeader 200 w, g))"
    by (rule keeps_originI) (simp add: writer_defs)
  from cors_on_every_answer [OF this prod.collapse [symmetric]] show ?thesis by blast
qed

section \<open>Routing\<close>

lemmas route_defs = route_of_def path_matches_def routes_def method_matches_def

text \<open>The route table.  With the path split at its slashes, \<^verbatim>\<open>POST /tasks\<close> creates,
  \<^verbatim>\<open>GET\<close> (or \<^verbatim>\<open>HEAD\<close>) of \<^verbatim>\<open>/tasks/{id}\<close> with a non-empty segment looks that id up,
  \<^verbatim>\<open>/tasks/{id}/screenshot\<close> serves its screenshot, \<^verbatim>\<open>/metrics\<close> and \<^verbatim>\<open>/health\<close> answer GET, and
  no other method or path reaches a handler.\<close>

lemma routing_exact:
  "route_of m ss = Some (rt, i) \<longleftrightarrow>
     (rt = R_CreateTask \<and> m = ''POST'' \<and> ss = [''tasks''] \<and> i = []) \<or>
     (rt = R_GetTask \<and> (m = ''GET'' \<or> m = ''HEAD'') \<and> i \<noteq> [] \<and> ss = [''tasks'', i]) \<or>
     (rt = R_Screenshot \<and> (m = ''GET'' \<or> m = ''HEAD'') \<and> i \<noteq> [] \<and> ss = [''tasks'', i, ''screenshot'']) \<or>
     (rt = R_Metrics \<and> (m = ''GET'' \<or> m = ''HEAD'') \<and> ss = [''metrics''] \<and> i = []) \<or>
     (rt = R_Health \<and> (m = ''GET'' \<or> m = ''HEAD'') \<and> ss = [''health''] \<and> i = [])"
proof (cases ss)
  case Nil
  then show ?thesis by (simp add: route_defs)
next
  case (Cons a s1)
  note a = Cons
  show ?thesis
  proof (cases s1)
    case Nil
    with a show ?thesis
      by (cases "a = ''tasks''"; cases "a = ''metrics''"; cases "a = ''health''"; cases "m = ''POST''";
          auto simp: route_defs)
  next
    case (Cons b s2)
    note b = Cons
    show ?thesis
    proof (cases s2)
      case Nil
      with a b show ?thesis by (auto simp: route_defs)
    next
      case (Cons c s3)
      with a b show ?thesis by (cases s3) (auto simp: route_defs)
    qed
  qed
qed

section \<open>Connection settings\<close>

text \<open>The connection string carries each setting faithfully: with no delimiter inside
  them (no colon in the user or the host, no at sign in the password, no slash in the
  port, no question mark in the database name), reading \<open>buildDSN\<close> back delimiter by
  delimiter gives the five settings, each the environment's value if it is set, even to the
  empty string, and the default otherwise.\<close>

lemma dsn_roundtrip:
  assumes "CHR '':'' \<notin> set (getEnv sys ''POSTGRES_USER'' ''trialterminator'')"
    and "CHR ''@'' \<notin> set (getEnv sys ''POSTGRES_PASSWORD'' ''secret'')"
    and "CHR '':'' \<notin> set (getEnv sys ''POSTGRES_HOST'' ''localhost'')"
    and "CHR ''/'' \<notin> set (getEnv sys ''POSTGRES_PORT'' ''5432'')"
    and "CHR ''?'' \<notin> set (getEnv sys ''POSTGRES_DB'' ''trialterminator'')"
  shows "dsn_fields (buildDSN sys) =
    Some (getEnv sys ''POSTGRES_USER'' ''trialterminator'', getEnv sys ''POSTGRES_PASSWORD'' ''secret'',
      getEnv sys ''POSTGRES_HOST'' ''localhost'', getEnv sys ''POSTGRES_PORT'' ''5432'',
      getEnv sys ''POSTGRES_DB'' ''trialterminator'')"
  using assms by (simp add: buildDSN_def dsn_format_def dsn_fields_def cut_append)

text \<open>\<open>NewPool\<close> hands out only a pool that answered its ping, opened from the parsed
  connection string with at most 10 and at least 2 connections, an idle limit of five
  minutes and a health check every minute (in nanoseconds); every other outcome is an
  error.\<close>

lemma new_pool_exact:
  "NewPool sys lib = Inr p \<longleftrightarrow>
     (\<exists>config. ParseConfig lib (buildDSN sys) = Inr config \<and>
        NewWithConfig lib (config\<lparr>MaxConns := 10, MinConns := 2, MaxConnIdleTime := 300000000000,
          HealthCheckPeriod := 60000000000\<rparr>) = Inr p \<and>
        pool_Ping lib p = None)"
  by (auto simp: NewPool_def configure_pool_def Minute_def Second_def split: sum.splits option.splits)

section \<open>Start-up and shutdown\<close>

text \<open>\<open>a\<close> happens, and no \<open>b\<close> happens before the first \<open>a\<close>.\<close>

definition first_before :: "'a \<Rightarrow> 'a \<Rightarrow> 'a list \<Rightarrow> bool" where
  "first_before a b xs \<longleftrightarrow> a \<in> set xs \<and> b \<notin> set (takeWhile (\<lambda>x. x \<noteq> a) xs)"

text \<open>The process serves only with both connections up, and ends in one of two ways.  If
  the database, Redis and the listener work, it waits for a signal, cancels the background
  loops before it shuts the HTTP server down, shuts the server down before it closes
  Redis, closes Redis before the pool, and returns, even when the shutdown was forced.
  Otherwise it exits with code 1, and then runs none of the deferred closes.\<close>

lemma main_lifecycle:
  "let evs = main pool redisClient listen shutdown;
       up = ((\<exists>p. pool = Inr p) \<and> (\<exists>c. redisClient = Inr c) \<and> listen = None)
   in (ListenAndServe \<in> set evs \<longleftrightarrow> (\<exists>p. pool = Inr p) \<and> (\<exists>c. redisClient = Inr c)) \<and>
     (if up
      then last evs = Return \<and> Exit 1 \<notin> set evs \<and> first_before WaitSignal CancelContext evs \<and>
        first_before CancelContext ShutdownServer evs \<and> first_before ShutdownServer CloseRedis evs \<and>
        first_before CloseRedis ClosePool evs \<and> first_before ClosePool Return evs
      else last evs = Exit 1 \<and> CloseRedis \<notin> set evs \<and> ClosePool \<notin> set evs)"
  by (cases pool; cases redisClient; cases listen; cases shutdown)
    (simp_all add: main_def first_before_def Let_def)

end
