(* ===== verification/Worker.thy ===== *)
theory Worker
  imports Recovery
begin

text \<open>
  The Node worker of \<^verbatim>\<open>worker/src/worker.js\<close>: the loop over BRPOP and \<open>processTask\<close>, with its
  heartbeats and the fenced result writes of \<^verbatim>\<open>Worker_Db\<close>.  A promise that rejects and is
  not caught is an error value: it ends the loop and the process (\<^verbatim>\<open>worker/src/index.js\<close>).

  Parameters: the browser automation \<^verbatim>\<open>universal.js\<close> as a function from the claimed row to
  the run (how often the heartbeat fires, and the outcome), Redis's BRPOP and LPUSH, and
  the server's input of UUIDs.
\<close>

section \<open>Automations\<close>

text \<open>
  The result object of an automation; \<open>page\<close> is the page left open by it, as what
  \<open>takeScreenshot\<close> gives on it.  An absent property is falsy.
\<close>

record run_result =
  scheduled :: bool
  scheduledFor :: instant
  success :: bool
  run_error :: "string option"
  evidencePath :: "string option"
  page :: "(string + string) option"

definition no_result :: run_result where
  "no_result = \<lparr>scheduled = False, scheduledFor = 0, success = False, run_error = None,
     evidencePath = None, page = None\<rparr>"

datatype automation_run = Returns run_result | Throws string

record 'q worker_env =
  universal :: "task_row \<Rightarrow> nat \<times> automation_run"
  brpop :: "string \<Rightarrow> 'q \<Rightarrow> (string + string option) \<times> 'q"
  lpush :: "'q redis_client"
  uuid_in :: "string \<Rightarrow> uuid option"

text \<open>
  The registry is an object literal, so the lookup of a lower-case name also finds the
  properties it inherits: \<open>constructor\<close>, the function \<open>Object\<close>, and \<open>__proto__\<close>, which
  cannot be called.
\<close>

datatype automation = TestService | Universal | InheritedObject | InheritedPrototype

definition ascii_lower :: "char \<Rightarrow> char" where
  "ascii_lower c =
     (if 65 \<le> (of_char c :: nat) \<and> (of_char c :: nat) \<le> 90 then char_of ((of_char c :: nat) + 32) else c)"

definition getAutomation :: "string \<Rightarrow> automation option" where
  "getAutomation serviceName =
     (let n = map ascii_lower serviceName in
      if n = ''test'' then Some TestService
      else if n = ''universal'' then Some Universal
      else if n = ''constructor'' then Some InheritedObject
      else if n = ''__proto__'' then Some InheritedPrototype
      else None)"

text \<open>\<open>await automation(task)\<close>; \<open>Object(task)\<close> is the row itself, which has none of the
  properties of a result.\<close>

definition run_automation :: "'q worker_env \<Rightarrow> automation \<Rightarrow> task_row \<Rightarrow> nat \<times> automation_run" where
  "run_automation we a task =
     (case a of
        TestService \<Rightarrow> (0, Returns (no_result\<lparr>success := True\<rparr>))
      | Universal \<Rightarrow> universal we task
      | InheritedObject \<Rightarrow> (0, Returns no_result)
      | InheritedPrototype \<Rightarrow> (0, Throws ''automation is not a function''))"

text \<open>The \<open>catch\<close> around the automation.\<close>

definition caught :: "automation_run \<Rightarrow> run_result" where
  "caught x = (case x of Returns res \<Rightarrow> res | Throws msg \<Rightarrow> no_result\<lparr>run_error := Some msg\<rparr>)"

section \<open>Statements of the worker\<close>

definition with_id ::
  "'q worker_env \<Rightarrow> string \<Rightarrow> (uuid \<Rightarrow> instant \<Rightarrow> table \<Rightarrow> 'a result \<times> table) \<Rightarrow>
   instant \<Rightarrow> table \<Rightarrow> 'a result \<times> table" where
  "with_id we taskId stmt now rs =
     (case uuid_in we taskId of
        None \<Rightarrow> (Inl (PgError ''22P02'' ''invalid input syntax for type uuid''), rs)
      | Some i \<Rightarrow> stmt i now rs)"

definition pool_query ::
  "env \<Rightarrow> (instant \<Rightarrow> table \<Rightarrow> 'a result \<times> table) \<Rightarrow> (pg, 'q) world \<Rightarrow> 'a result \<times> (pg, 'q) world" where
  "pool_query env stmt w =
     (case exec env (\<lambda>m. stmt) (store w) of (res, s') \<Rightarrow> (res, w\<lparr>store := s'\<rparr>))"

text \<open>The heartbeats that fire while the automation runs; a failed one is only logged.\<close>

fun heartbeats ::
  "env \<Rightarrow> 'q worker_env \<Rightarrow> string \<Rightarrow> string \<Rightarrow> nat \<Rightarrow> (pg, 'q) world \<Rightarrow> (pg, 'q) world" where
  "heartbeats env we wid taskId 0 w = w"
| "heartbeats env we wid taskId (Suc n) w =
     heartbeats env we wid taskId n
       (snd (pool_query env (with_id we taskId (\<lambda>i. worker_heartbeat i wid)) w))"

section \<open>processTask\<close>

definition screenshot_path :: "run_result \<Rightarrow> string option" where
  "screenshot_path res =
     (if evidencePath res = None \<or> evidencePath res = Some []
      then (case page res of
              None \<Rightarrow> evidencePath res
            | Some (Inl err) \<Rightarrow> evidencePath res
            | Some (Inr path) \<Rightarrow> Some path)
      else evidencePath res)"

text \<open>A result write whose answer (did it land?) is only logged.\<close>

definition settle :: "bool result \<times> (pg, 'q) world \<Rightarrow> unit result \<times> (pg, 'q) world" where
  "settle p = (case p of (Inl e, w) \<Rightarrow> (Inl e, w) | (Inr landed, w) \<Rightarrow> (Inr (), w))"

definition handle_result ::
  "env \<Rightarrow> 'q worker_env \<Rightarrow> string \<Rightarrow> string \<Rightarrow> task_row \<Rightarrow> run_result \<Rightarrow> (pg, 'q) world \<Rightarrow>
   unit result \<times> (pg, 'q) world" where
  "handle_result env we wid taskId task res w =
     (if scheduled res
      then settle (pool_query env
        (with_id we taskId (\<lambda>i. worker_scheduleTask i wid (scheduledFor res))) w)
      else if success res
      then settle (pool_query env (with_id we taskId (\<lambda>i. worker_updateTaskSuccess i wid)) w)
      else if c_attempts task \<ge> c_max task
      then settle (pool_query env (with_id we taskId
        (\<lambda>i. worker_updateTaskDeadLetter i wid (run_error res) (screenshot_path res))) w)
      else (case pool_query env
                (with_id we taskId (\<lambda>i. worker_updateTaskRetry i wid (run_error res))) w of
           (Inl e, w') \<Rightarrow> (Inl e, w')
         | (Inr landed, w') \<Rightarrow>
             if \<not> landed then (Inr (), w')
             else (case lpush we TaskQueueKey taskId (redis w') of
                (Some txt, q') \<Rightarrow> (Inl (ErrorString txt), w'\<lparr>redis := q'\<rparr>)
              | (None, q') \<Rightarrow> (Inr (), w'\<lparr>redis := q'\<rparr>))))"

definition processTask ::
  "env \<Rightarrow> 'q worker_env \<Rightarrow> string \<Rightarrow> string \<Rightarrow> (pg, 'q) world \<Rightarrow> unit result \<times> (pg, 'q) world" where
  "processTask env we wid taskId w =
     (case pool_query env (with_id we taskId (\<lambda>i. worker_claimTask i wid)) w of
        (Inl e, w1) \<Rightarrow> (Inl e, w1)
      | (Inr None, w1) \<Rightarrow> (Inr (), w1)
      | (Inr (Some task), w1) \<Rightarrow>
          (case getAutomation (c_service task) of
             None \<Rightarrow> settle (pool_query env (with_id we taskId (\<lambda>i. worker_updateTaskDeadLetter i wid
               (Some (''No automation found for service: '' @ c_service task)) None)) w1)
           | Some a \<Rightarrow>
               (case run_automation we a task of (n, run) \<Rightarrow>
                  handle_result env we wid taskId task (caught run)
                    (heartbeats env we wid taskId n w1))))"

section \<open>The loop\<close>

text \<open>
  \<open>worker_loop\<close> with \<open>n\<close> iterations before the shutdown flag is seen; BRPOP gives an error,
  nothing (its timeout), or an entry.
\<close>

fun worker_loop ::
  "env \<Rightarrow> 'q worker_env \<Rightarrow> string \<Rightarrow> nat \<Rightarrow> (pg, 'q) world \<Rightarrow> unit result \<times> (pg, 'q) world" where
  "worker_loop env we wid 0 w = (Inr (), w)"
| "worker_loop env we wid (Suc n) w =
     (case brpop we TaskQueueKey (redis w) of
        (Inl txt, q') \<Rightarrow> (Inl (ErrorString txt), w\<lparr>redis := q'\<rparr>)
      | (Inr None, q') \<Rightarrow> worker_loop env we wid n (w\<lparr>redis := q'\<rparr>)
      | (Inr (Some taskId), q') \<Rightarrow>
          (case processTask env we wid taskId (w\<lparr>redis := q'\<rparr>) of
             (Inl e, w') \<Rightarrow> (Inl e, w')
           | (Inr u, w') \<Rightarrow> worker_loop env we wid n w'))"

text \<open>
  BRPOP takes the entry at the tail of the list, and nothing when the list is empty; other
  keys are untouched.  After an error the entry may have been taken (the reply is lost).
\<close>

definition brpop_law ::
  "(string \<Rightarrow> 'q \<Rightarrow> (string + string option) \<times> 'q) \<Rightarrow> ('q \<Rightarrow> string \<Rightarrow> string list) \<Rightarrow> bool" where
  "brpop_law b items \<longleftrightarrow>
     (\<forall>k q. (\<forall>k'. k' \<noteq> k \<longrightarrow> items (snd (b k q)) k' = items q k') \<and>
        (case fst (b k q) of
           Inr (Some v) \<Rightarrow> items q k = items (snd (b k q)) k @ [v]
         | Inr None \<Rightarrow> items q k = [] \<and> items (snd (b k q)) k = []
         | Inl txt \<Rightarrow> items (snd (b k q)) k = items q k \<or> items (snd (b k q)) k = butlast (items q k)))"

definition brpop_up :: "(string \<Rightarrow> 'q \<Rightarrow> (string + string option) \<times> 'q) \<Rightarrow> bool" where
  "brpop_up b \<longleftrightarrow> (\<forall>k q. \<exists>r. fst (b k q) = Inr r)"

lemma brpop_lawD:
  assumes "brpop_law b items"
  shows "case fst (b k q) of
      Inr (Some v) \<Rightarrow> items q k = items (snd (b k q)) k @ [v]
    | Inr None \<Rightarrow> items q k = [] \<and> items (snd (b k q)) k = []
    | Inl txt \<Rightarrow> items (snd (b k q)) k = items q k \<or> items (snd (b k q)) k = butlast (items q k)"
  using assms unfolding brpop_law_def by blast

lemma brpop_pending:
  assumes "brpop_law b items"
  shows "b TaskQueueKey q = (Inr (Some v), q') \<Longrightarrow> pending items q = pending items q' @ [v]"
    and "b TaskQueueKey q = (Inr None, q') \<Longrightarrow> pending items q = [] \<and> pending items q' = []"
  using brpop_lawD [OF assms, of TaskQueueKey q] by (simp_all add: pending_def)

text \<open>An answering Redis gives the tail entry, if there is one.\<close>

lemma brpop_tail:
  assumes "brpop_law b items" and "brpop_up b" and "pending items q = vs @ [v]"
  obtains q' where "b TaskQueueKey q = (Inr (Some v), q')" and "pending items q' = vs"
proof -
  obtain r q' where b: "b TaskQueueKey q = (Inr r, q')"
    using assms(2) unfolding brpop_up_def by (metis prod.collapse)
  show thesis
  proof (cases r)
    case None
    with brpop_pending(2) [OF assms(1)] b assms(3) show thesis by simp
  next
    case (Some v')
    with brpop_pending(1) [OF assms(1)] b assms(3) that show thesis by simp
  qed
qed

section \<open>The worker as a part of the running system\<close>

text \<open>Whatever its automations do and whatever fails, the worker moves the store along
  the steps of the table, and never writes a status unfenced.\<close>

fun worker_action :: "string \<Rightarrow> db_action \<Rightarrow> bool" where
  "worker_action wid (WClaim i w) = (w = wid)"
| "worker_action wid (Heartbeat i w) = (w = wid)"
| "worker_action wid (WSuccess i w) = (w = wid)"
| "worker_action wid (WRetry i w err) = (w = wid)"
| "worker_action wid (WSchedule i w at) = (w = wid)"
| "worker_action wid (WDeadLetter i w err ev) = (w = wid)"
| "worker_action wid a = False"

lemma worker_fenced: "worker_action wid a \<Longrightarrow> no_set_status a"
  by (cases a) simp_all

lemma pool_query_runs:
  assumes "\<And>i now rs. \<exists>a. A a \<and> snd (stmt i now rs) = apply_action (jsonb_in env) now a rs"
  shows "pg_runs env A (store w) (store (snd (pool_query env (with_id we tid stmt) w)))"
proof -
  have "pg_runs env A (store w) (snd (exec env (\<lambda>m. with_id we tid stmt) (store w)))"
    by (rule exec_runs) (use assms in \<open>auto simp: with_id_def split: option.split\<close>)
  then show ?thesis by (auto simp: pool_query_def split: prod.split)
qed

lemma pool_query_frame [simp]:
  "redis (snd (pool_query env stmt w)) = redis w" "meters (snd (pool_query env stmt w)) = meters w"
  by (simp_all add: pool_query_def split: prod.split)

lemma settle_snd [simp]: "snd (settle p) = snd p"
  by (simp add: settle_def split: prod.split sum.split)

lemma worker_statements:
  assumes "\<And>a. worker_action wid a \<Longrightarrow> A a"
  shows "\<exists>a. A a \<and> snd (worker_claimTask i wid now rs) = apply_action J now a rs"
    and "\<exists>a. A a \<and> snd (worker_heartbeat i wid now rs) = apply_action J now a rs"
    and "\<exists>a. A a \<and> snd (worker_updateTaskSuccess i wid now rs) = apply_action J now a rs"
    and "\<exists>a. A a \<and> snd (worker_updateTaskRetry i wid err now rs) = apply_action J now a rs"
    and "\<exists>a. A a \<and> snd (worker_scheduleTask i wid at now rs) = apply_action J now a rs"
    and "\<exists>a. A a \<and> snd (worker_updateTaskDeadLetter i wid err ev now rs) = apply_action J now a rs"
  using assms apply_action.simps(5-10) worker_action.simps(1-6) by metis+

lemma heartbeats_runs:
  assumes "\<And>a. worker_action wid a \<Longrightarrow> A a"
  shows "pg_runs env A (store w) (store (heartbeats env we wid tid n w))"
proof (induction n arbitrary: w)
  case 0
  then show ?case by simp
next
  case (Suc n)
  have "pg_runs env A (store w)
      (store (snd (pool_query env (with_id we tid (\<lambda>i. worker_heartbeat i wid)) w)))"
    by (rule pool_query_runs) (rule worker_statements(2) [OF assms])
  from pg_runs_trans [OF this Suc.IH] show ?case by simp
qed

lemma heartbeats_frame [simp]:
  "redis (heartbeats env we wid tid n w) = redis w" "meters (heartbeats env we wid tid n w) = meters w"
  by (induction n arbitrary: w) simp_all

lemma handle_result_runs:
  assumes "\<And>a. worker_action wid a \<Longrightarrow> A a"
  shows "pg_runs env A (store w) (store (snd (handle_result env we wid tid task res w)))"
proof -
  note stmts = worker_statements [where wid = wid and A = A, OF assms]
  have retry: "pg_runs env A (store w) (store (snd (pool_query env
      (with_id we tid (\<lambda>i. worker_updateTaskRetry i wid (run_error res))) w)))"
    by (rule pool_query_runs) (rule stmts(4))
  have sched: "pg_runs env A (store w) (store (snd (pool_query env (with_id we tid
        (\<lambda>i. worker_scheduleTask i wid (scheduledFor res))) w)))"
    by (rule pool_query_runs) (rule stmts(5))
  have succ: "pg_runs env A (store w) (store (snd (pool_query env (with_id we tid
        (\<lambda>i. worker_updateTaskSuccess i wid)) w)))"
    by (rule pool_query_runs) (rule stmts(3))
  have dead: "pg_runs env A (store w) (store (snd (pool_query env (with_id we tid
        (\<lambda>i. worker_updateTaskDeadLetter i wid (run_error res) (screenshot_path res))) w)))"
    by (rule pool_query_runs) (rule stmts(6))
  show ?thesis
    using retry sched succ dead by (auto simp: handle_result_def split: prod.split sum.split option.split)
qed

lemma processTask_runs:
  assumes "\<And>a. worker_action wid a \<Longrightarrow> A a"
  shows "pg_runs env A (store w) (store (snd (processTask env we wid tid w)))"
proof -
  obtain res w1 where c: "pool_query env (with_id we tid (\<lambda>i. worker_claimTask i wid)) w = (res, w1)"
    by fastforce
  have "pg_runs env A (store w) (store (snd (pool_query env (with_id we tid (\<lambda>i. worker_claimTask i wid)) w)))"
    by (rule pool_query_runs) (rule worker_statements(1) [OF assms])
  then have 1: "pg_runs env A (store w) (store w1)" by (simp add: c)
  have "pg_runs env A (store w1) (store (snd (pool_query env (with_id we tid
      (\<lambda>i. worker_updateTaskDeadLetter i wid err None)) w1)))" for err
    by (rule pool_query_runs) (rule worker_statements(6) [OF assms])
  with 1 have 2: "pg_runs env A (store w) (store (snd (pool_query env (with_id we tid
      (\<lambda>i. worker_updateTaskDeadLetter i wid err None)) w1)))" for err
    by (rule pg_runs_trans)
  have 3: "pg_runs env A (store w) (store (snd (handle_result env we wid tid task run
      (heartbeats env we wid tid n w1))))" for task run n
    by (rule pg_runs_trans [OF pg_runs_trans [OF 1 heartbeats_runs [OF assms]] handle_result_runs [OF assms]])
  show ?thesis
    using 1 2 3 by (auto simp: processTask_def c split: sum.split option.split prod.split)
qed

lemma worker_loop_runs:
  assumes "\<And>a. worker_action wid a \<Longrightarrow> A a"
  shows "pg_runs env A (store w) (store (snd (worker_loop env we wid n w)))"
proof (induction n arbitrary: w)
  case 0
  then show ?case by simp
next
  case (Suc n)
  have step: "pg_runs env A (store w) (store w') \<and>
      pg_runs env A (store w) (store (snd (worker_loop env we wid n w')))"
    if "processTask env we wid tid (w\<lparr>redis := q\<rparr>) = (x, w')" for tid q x w'
    using processTask_runs [where wid = wid and A = A, OF assms, where w = "w\<lparr>redis := q\<rparr>" and env = env and we = we and tid = tid] Suc.IH [of w'] that
    by (auto intro: pg_runs_trans)
  show ?case
    using step Suc.IH [of "w\<lparr>redis := q\<rparr>" for q] by (auto split: prod.split sum.split option.split)
qed

text \<open>The server's metrics are those of another process.\<close>

lemma processTask_meters [simp]: "meters (snd (processTask env we wid tid w)) = meters w"
proof -
  obtain res w1 where c: "pool_query env (with_id we tid (\<lambda>i. worker_claimTask i wid)) w = (res, w1)"
    by fastforce
  have m: "meters w1 = meters w"
    using pool_query_frame(2) [of env "with_id we tid (\<lambda>i. worker_claimTask i wid)" w] c by simp
  have h: "meters (snd (handle_result env we wid tid task run w')) = meters w'" for task run w'
  proof -
    obtain res2 w2 where "pool_query env (with_id we tid
        (\<lambda>i. worker_updateTaskRetry i wid (run_error run))) w' = (res2, w2)" by fastforce
    moreover from this have "meters w2 = meters w'"
      using pool_query_frame(2) [of env "with_id we tid
        (\<lambda>i. worker_updateTaskRetry i wid (run_error run))" w'] by simp
    ultimately show ?thesis
      by (simp add: handle_result_def split: prod.split sum.split option.split)
  qed
  show ?thesis by (simp add: processTask_def c m h split: sum.split option.split prod.split)
qed

lemma worker_loop_meters [simp]: "meters (snd (worker_loop env we wid n w)) = meters w"
proof (induction n arbitrary: w)
  case (Suc n)
  have "meters w' = meters w" if "processTask env we wid tid (w\<lparr>redis := q\<rparr>) = (x, w')" for tid q x w'
    using processTask_meters [of env we wid tid "w\<lparr>redis := q\<rparr>"] that by simp
  with Suc.IH show ?case by (auto split: prod.split sum.split option.split)
qed simp

end
