(* ===== verification/Task_Spec.thy ===== *)
theory Task_Spec
  imports Lifecycle
begin

text \<open>
  What the system promises about tasks, without tables, locks, times or statements: a task
  is submitted once per key, waits, is taken by one worker at a time, is handed back or
  reclaimed, and is completed once, by the worker that holds it.  The tasks table refines
  this specification: every statement of the server and the workers is one abstract event
  or no change.
\<close>

section \<open>The specification\<close>

datatype phase = Waiting | Running string | Completed bool

record spec_task =
  s_key :: uuid
  s_phase :: phase
  s_tries :: int

type_synonym spec = "uuid \<Rightarrow> spec_task option"

datatype spec_event =
    Submit uuid uuid
  | Take uuid string
  | HandBack uuid string
  | Reclaim uuid
  | Complete uuid string bool

inductive spec_step :: "spec_event \<Rightarrow> spec \<Rightarrow> spec \<Rightarrow> bool" where
  submit: "S i = None \<Longrightarrow> (\<And>j t. S j = Some t \<Longrightarrow> s_key t \<noteq> k) \<Longrightarrow>
    spec_step (Submit i k) S (S(i \<mapsto> \<lparr>s_key = k, s_phase = Waiting, s_tries = 0\<rparr>))"
| take: "S i = Some t \<Longrightarrow> s_phase t = Waiting \<Longrightarrow>
    spec_step (Take i w) S (S(i \<mapsto> t\<lparr>s_phase := Running w, s_tries := s_tries t + 1\<rparr>))"
| hand_back: "S i = Some t \<Longrightarrow> s_phase t = Running w \<Longrightarrow>
    spec_step (HandBack i w) S (S(i \<mapsto> t\<lparr>s_phase := Waiting\<rparr>))"
| reclaim: "S i = Some t \<Longrightarrow> s_phase t = Running w \<Longrightarrow>
    spec_step (Reclaim i) S (S(i \<mapsto> t\<lparr>s_phase := Waiting\<rparr>))"
| complete: "S i = Some t \<Longrightarrow> s_phase t = Running w \<Longrightarrow>
    spec_step (Complete i w ok) S (S(i \<mapsto> t\<lparr>s_phase := Completed ok\<rparr>))"

inductive_cases spec_stepE: "spec_step e S S'"

inductive_simps spec_step_simps:
  "spec_step (Submit i k) S S'"
  "spec_step (Take i w) S S'"
  "spec_step (HandBack i w) S S'"
  "spec_step (Reclaim i) S S'"
  "spec_step (Complete i w ok) S S'"

section \<open>Simulation\<close>

text \<open>The runs of a labelled system, with the history of their events, the latest first.\<close>

inductive event_run :: "('e \<Rightarrow> 'a \<Rightarrow> 'a \<Rightarrow> bool) \<Rightarrow> 'e list \<Rightarrow> 'a \<Rightarrow> 'a \<Rightarrow> bool"
  for step :: "'e \<Rightarrow> 'a \<Rightarrow> 'a \<Rightarrow> bool" where
  nil: "event_run step [] S S"
| step: "event_run step es S S' \<Longrightarrow> step e S' S'' \<Longrightarrow> event_run step (e # es) S S''"

abbreviation spec_run :: "spec_event list \<Rightarrow> spec \<Rightarrow> spec \<Rightarrow> bool" where
  "spec_run \<equiv> event_run spec_step"

text \<open>
  A concrete system refines a labelled one if, under an invariant it keeps, each of its steps
  is one abstract step or none; then each of its runs is an abstract run.
\<close>

locale simulation =
  fixes cstep :: "'c \<Rightarrow> 'c \<Rightarrow> bool"
    and astep :: "'e \<Rightarrow> 'a \<Rightarrow> 'a \<Rightarrow> bool"
    and abstr :: "'c \<Rightarrow> 'a"
    and inv :: "'c \<Rightarrow> bool"
  assumes inv_step: "cstep c c' \<Longrightarrow> inv c \<Longrightarrow> inv c'"
    and simulates: "cstep c c' \<Longrightarrow> inv c \<Longrightarrow> abstr c' = abstr c \<or> (\<exists>e. astep e (abstr c) (abstr c'))"
begin

lemma run_simulated:
  assumes "cstep\<^sup>*\<^sup>* c c'" and "inv c"
  shows "inv c' \<and> (\<exists>es. event_run astep es (abstr c) (abstr c'))"
  using assms(1)
proof (induction rule: rtranclp_induct)
  case base
  show ?case using assms(2) by (auto intro: exI [of _ "[]"] event_run.nil)
next
  case (step c1 c2)
  then obtain es where es: "event_run astep es (abstr c) (abstr c1)" by blast
  then have "\<exists>es. event_run astep es (abstr c) (abstr c2)"
    using simulates [OF step.hyps(2)] step.IH by (metis event_run.step)
  with inv_step [OF step.hyps(2)] step.IH show ?case by blast
qed

end

section \<open>What the specification guarantees\<close>

text \<open>The worker that holds a task after a history, the times it was taken, and how it was
  completed.\<close>

fun holder :: "uuid \<Rightarrow> spec_event list \<Rightarrow> string option" where
  "holder i [] = None"
| "holder i (Submit j k # es) = holder i es"
| "holder i (Take j w # es) = (if j = i then Some w else holder i es)"
| "holder i (HandBack j w # es) = (if j = i then None else holder i es)"
| "holder i (Reclaim j # es) = (if j = i then None else holder i es)"
| "holder i (Complete j w ok # es) = (if j = i then None else holder i es)"

fun takes :: "uuid \<Rightarrow> spec_event list \<Rightarrow> int" where
  "takes i [] = 0"
| "takes i (Take j w # es) = (if j = i then takes i es + 1 else takes i es)"
| "takes i (e # es) = takes i es"

fun outcome :: "uuid \<Rightarrow> spec_event list \<Rightarrow> bool option" where
  "outcome i [] = None"
| "outcome i (Complete j w ok # es) = (if j = i then Some ok else outcome i es)"
| "outcome i (e # es) = outcome i es"

fun submitted :: "uuid \<Rightarrow> spec_event list \<Rightarrow> uuid option" where
  "submitted i [] = None"
| "submitted i (Submit j k # es) = (if j = i then Some k else submitted i es)"
| "submitted i (e # es) = submitted i es"

text \<open>
  A sound history: a task is submitted once, taken only when it exists, nobody holds it and
  it is not completed, and handed back, reclaimed or completed only when somebody holds it,
  the first and the last by the holder alone.
\<close>

fun sound :: "spec_event list \<Rightarrow> bool" where
  "sound [] = True"
| "sound (Submit i k # es) = (sound es \<and> submitted i es = None)"
| "sound (Take i w # es) =
     (sound es \<and> submitted i es \<noteq> None \<and> holder i es = None \<and> outcome i es = None)"
| "sound (HandBack i w # es) = (sound es \<and> holder i es = Some w)"
| "sound (Reclaim i # es) = (sound es \<and> holder i es \<noteq> None)"
| "sound (Complete i w ok # es) = (sound es \<and> holder i es = Some w)"

text \<open>What a history says of a task.\<close>

definition history_task :: "spec_event list \<Rightarrow> uuid \<Rightarrow> spec_task option" where
  "history_task es i =
     (case submitted i es of None \<Rightarrow> None
      | Some k \<Rightarrow> Some \<lparr>s_key = k,
          s_phase = (case outcome i es of Some ok \<Rightarrow> Completed ok
                     | None \<Rightarrow> (case holder i es of Some w \<Rightarrow> Running w | None \<Rightarrow> Waiting)),
          s_tries = takes i es\<rparr>)"

text \<open>A held task has no outcome, a task nobody submitted has no history.\<close>

lemma sound_outcome: "sound es \<Longrightarrow> outcome i es \<noteq> None \<Longrightarrow> holder i es = None"
  by (induction es rule: sound.induct) (auto split: if_splits)

lemma sound_holder: "sound es \<Longrightarrow> holder i es = Some w \<Longrightarrow> submitted i es \<noteq> None \<and> outcome i es = None"
  by (induction es rule: sound.induct) (auto split: if_splits)

lemma sound_unsubmitted:
  "sound es \<Longrightarrow> submitted i es = None \<Longrightarrow> holder i es = None \<and> takes i es = 0 \<and> outcome i es = None"
  by (induction es rule: sound.induct) (auto split: if_splits dest: sound_holder)

text \<open>A sound history completes a task at most once.\<close>

fun completes :: "uuid \<Rightarrow> spec_event \<Rightarrow> bool" where
  "completes i (Complete j w ok) = (j = i)"
| "completes i e = False"

lemma sound_completes:
  "sound es \<Longrightarrow> length (filter (completes i) es) = (if outcome i es = None then 0 else 1)"
  by (induction es rule: sound.induct) (auto split: if_splits dest: sound_outcome)

text \<open>Every run from the empty specification has a sound history, and the history determines
  every task.\<close>

lemma spec_run_history:
  "spec_run es S S' \<Longrightarrow> S = (\<lambda>_. None) \<Longrightarrow> sound es \<and> S' = history_task es"
proof (induction rule: event_run.induct)
  case (nil S)
  then show ?case by (simp add: history_task_def fun_eq_iff)
next
  case (step es S S' e S'')
  then have IH: "sound es" "S' = history_task es" by simp_all
  from step.hyps(2) show ?case unfolding IH(2)
  proof (cases rule: spec_step.cases)
    case (submit i k)
    then have "submitted i es = None" by (simp add: history_task_def split: option.splits)
    with submit IH(1) sound_unsubmitted [OF IH(1) this] show ?thesis
      by (auto simp: history_task_def fun_eq_iff split: option.split)
  qed (use IH(1) in \<open>auto simp: history_task_def fun_eq_iff split: option.splits\<close>)
qed

section \<open>The abstraction of a table\<close>

definition phase_of :: "task_row \<Rightarrow> phase" where
  "phase_of r =
     (case c_status r of
        PENDING \<Rightarrow> Waiting
      | RETRY \<Rightarrow> Waiting
      | IN_PROGRESS \<Rightarrow> Running (case c_locked_by r of None \<Rightarrow> [] | Some w \<Rightarrow> w)
      | SUCCESS \<Rightarrow> Completed True
      | DEAD_LETTER \<Rightarrow> Completed False
      | FAILED \<Rightarrow> Completed False)"

definition abs_row :: "task_row \<Rightarrow> spec_task" where
  "abs_row r = \<lparr>s_key = c_key r, s_phase = phase_of r, s_tries = c_attempts r\<rparr>"

definition spec_of :: "table \<Rightarrow> spec" where
  "spec_of rs i = map_option abs_row (sql_by_id i rs)"

text \<open>The abstract event a statement stands for, if it changes the specification.\<close>

fun event_of :: "db_action \<Rightarrow> spec_event option" where
  "event_of (Insert i k sv e p at) = Some (Submit i k)"
| "event_of (Claim i w) = (case pg_varchar255 w of Inl e \<Rightarrow> None | Inr w' \<Rightarrow> Some (Take i w'))"
| "event_of (WClaim i w) = (case pg_varchar255 w of Inl e \<Rightarrow> None | Inr w' \<Rightarrow> Some (Take i w'))"
| "event_of (Requeue i th) = Some (Reclaim i)"
| "event_of (WRetry i w err) = Some (HandBack i w)"
| "event_of (WSchedule i w at) = Some (HandBack i w)"
| "event_of (WSuccess i w) = Some (Complete i w True)"
| "event_of (WDeadLetter i w err ev) = Some (Complete i w False)"
| "event_of (Heartbeat i w) = None"
| "event_of (SetStatus i st err) = None"

lemma spec_of_Some: "distinct (map c_id rs) \<Longrightarrow> r \<in> set rs \<Longrightarrow> spec_of rs (c_id r) = Some (abs_row r)"
  by (simp add: spec_of_def sql_by_id_def find_key_Some)

lemma spec_of_None: "spec_of rs i = None \<longleftrightarrow> i \<notin> c_id ` set rs"
  by (simp add: spec_of_def sql_by_id_def find_None_key)

lemma spec_of_SomeD: "spec_of rs i = Some t \<Longrightarrow> \<exists>r\<in>set rs. c_id r = i \<and> t = abs_row r"
  by (auto simp: spec_of_def sql_by_id_def dest!: find_SomeD)

text \<open>Rewriting the one row with an id updates the specification at that id.\<close>

lemma spec_of_update:
  assumes d: "distinct (map c_id rs)" and r: "r \<in> set rs"
    and ids: "\<And>x. x \<in> set rs \<Longrightarrow> c_id (f x) = c_id x"
    and others: "\<And>x. x \<in> set rs \<Longrightarrow> c_id x \<noteq> c_id r \<Longrightarrow> f x = x"
  shows "spec_of (map f rs) = (spec_of rs)(c_id r \<mapsto> abs_row (f r))"
proof
  fix i
  have "map c_id (map f rs) = map c_id rs" using ids by simp
  then have d': "distinct (map c_id (map f rs))" by (rule ssubst [where P = distinct]) (rule d)
  show "spec_of (map f rs) i = ((spec_of rs)(c_id r \<mapsto> abs_row (f r))) i"
  proof (cases "i \<in> c_id ` set rs")
    case False
    then have "spec_of (map f rs) i = None" "spec_of rs i = None" "i \<noteq> c_id r"
      using ids r by (auto simp: spec_of_None image_image cong: image_cong)
    then show ?thesis by simp
  next
    case True
    then obtain x where x: "x \<in> set rs" "i = c_id x" by auto
    have "f x \<in> set (map f rs)" "c_id (f x) = i" using x ids by auto
    with spec_of_Some [OF d', of "f x"] have 1: "spec_of (map f rs) i = Some (abs_row (f x))" by simp
    show ?thesis
    proof (cases "i = c_id r")
      case True
      with x r distinct_key_eq [OF d] have "x = r" by metis
      with 1 True show ?thesis by simp
    next
      case False
      with 1 x others spec_of_Some [OF d x(1)] show ?thesis by simp
    qed
  qed
qed

section \<open>The table refines the specification\<close>

lemma row_update_id:
  "row_update now a r r' \<Longrightarrow> row_update now a x x' \<Longrightarrow> no_set_status a \<Longrightarrow> c_id x = c_id r"
  by (cases a) (auto simp: claimable_def worker_claimable_def owned_def beats_def)

lemma abs_row_simps [simp]:
  "s_key (abs_row r) = c_key r" "s_phase (abs_row r) = phase_of r" "s_tries (abs_row r) = c_attempts r"
  by (simp_all add: abs_row_def)

text \<open>One rewritten row: its abstraction is unchanged (a heartbeat) or takes the event of the
  statement.\<close>

lemma row_update_abs:
  assumes "row_update now a r r'" and "no_set_status a" and "row_ok now r"
    and "S (c_id r) = Some (abs_row r)"
  shows "abs_row r' = abs_row r \<or>
    (\<exists>e. event_of a = Some e \<and> spec_step e S (S(c_id r \<mapsto> abs_row r')))"
  using assms
  by (cases a)
    (auto simp: abs_row_def phase_of_def row_transformers claimable_def worker_claimable_def
      is_stale_def owned_def beats_def row_ok_def spec_step_simps split: option.splits)

lemma apply_insert_abs:
  assumes "table_ok t rs"
  shows "apply_action J t (Insert i k sv em p at) rs = rs \<or>
    spec_step (Submit i k) (spec_of rs) (spec_of (apply_action J t (Insert i k sv em p at) rs))"
proof (cases "apply_action J t (Insert i k sv em p at) rs = rs")
  case False
  then obtain sv' em' p' where new: "i \<notin> c_id ` set rs" "k \<notin> c_key ` set rs"
    and rs': "apply_action J t (Insert i k sv em p at) rs = rs @ [default_row t i k sv' em' p' at]"
    (is "_ = rs @ [?r]")
    using apply_insert_rows [of J t i k sv em p at rs] by blast
  have "spec_of (rs @ [?r]) = (spec_of rs)(i \<mapsto> \<lparr>s_key = k, s_phase = Waiting, s_tries = 0\<rparr>)"
  proof
    fix j
    have "abs_row ?r = \<lparr>s_key = k, s_phase = Waiting, s_tries = 0\<rparr>"
      by (simp add: abs_row_def phase_of_def default_row_def)
    then show "spec_of (rs @ [?r]) j =
        ((spec_of rs)(i \<mapsto> \<lparr>s_key = k, s_phase = Waiting, s_tries = 0\<rparr>)) j"
      using new(1) by (auto simp: spec_of_def sql_by_id_def find_append_one find_None_key
          dest: find_SomeD split: option.splits)
  qed
  moreover have "spec_of rs i = None" using new(1) by (simp add: spec_of_None)
  moreover have "s_key u \<noteq> k" if "spec_of rs j = Some u" for j u
    using spec_of_SomeD [OF that] new(2) by auto
  ultimately show ?thesis unfolding rs' by (simp add: spec_step.submit)
qed simp

lemma apply_action_abs:
  assumes ok: "table_ok t rs" and ns: "no_set_status a"
  shows "spec_of (apply_action J t a rs) = spec_of rs \<or>
    (\<exists>e. event_of a = Some e \<and> spec_step e (spec_of rs) (spec_of (apply_action J t a rs)))"
proof (cases "\<exists>i k sv em p at. a = Insert i k sv em p at")
  case True
  then obtain i k sv em p at where a: "a = Insert i k sv em p at" by blast
  from apply_insert_abs [OF ok, of J i k sv em p at] show ?thesis
    unfolding a event_of.simps by (metis (no_types))
next
  case False
  then obtain f where f: "apply_action J t a rs = map f rs"
    "\<And>r. r \<in> set rs \<Longrightarrow> f r = r \<or> row_update t a r (f r)"
    using apply_action_rows [of a J t rs] by blast
  have d: "distinct (map c_id rs)" using ok by (simp add: table_ok_def)
  show ?thesis
  proof (cases "\<exists>r\<in>set rs. f r \<noteq> r")
    case False
    then have "map f rs = rs" by (simp add: map_idI)
    with f(1) show ?thesis by simp
  next
    case True
    then obtain r where r: "r \<in> set rs" "row_update t a r (f r)" using f(2) by blast
    have ids: "c_id (f x) = c_id x" if "x \<in> set rs" for x
      using in_place_frame(3) [of rs f t a x] f(2) that by (simp add: same_task_def)
    have others: "f x = x" if "x \<in> set rs" "c_id x \<noteq> c_id r" for x
      using f(2) [OF that(1)] row_update_id [OF r(2) _ ns] that(2) by blast
    have S: "spec_of (map f rs) = (spec_of rs)(c_id r \<mapsto> abs_row (f r))"
      by (rule spec_of_update [OF d r(1) ids others])
    have at_r: "spec_of rs (c_id r) = Some (abs_row r)" by (rule spec_of_Some [OF d r(1)])
    have "row_ok t r" using ok r(1) by (auto simp: table_ok_def list_all_iff)
    from row_update_abs [OF r(2) ns this, of "spec_of rs"] at_r show ?thesis
      unfolding f(1) S by (auto simp: fun_upd_idem)
  qed
qed

text \<open>The database, driven by the running system, simulates the specification.\<close>

interpretation table_sim: simulation
  "db_step J no_set_status" spec_step "\<lambda>s. spec_of (snd s)" "\<lambda>s. table_ok (fst s) (snd s)" for J
proof (unfold_locales, goal_cases)
  case (1 s s')
  then show ?case by (rule db_step_table_ok)
next
  case (2 s s')
  then show ?case using apply_action_abs by (fastforce elim!: db_stepE)
qed

end
