(* ===== verification/System.thy ===== *)
theory System
  imports Server_Props Worker Task_Spec
begin

text \<open>
  The whole system as a state machine: a step is an HTTP request, a tick of the requeuer or
  a tick of the scheduler of the server that \<open>New\<close> assembles, or a run of a worker over any
  number of queue entries.  What other workers and API servers do meanwhile happens inside
  the steps, between the statements of the store.
\<close>

section \<open>Steps of the system\<close>

inductive system_step ::
  "env \<Rightarrow> os \<Rightarrow> 'q redis_client \<Rightarrow> (pg, 'q) handler \<Rightarrow> (pg, 'q) world \<Rightarrow> (pg, 'q) world \<Rightarrow> bool"
  for env sys c prom where
  request: "Handler (New env sys c prom) now r (new_writer, g) = (w', g') \<Longrightarrow>
    system_step env sys c prom g g'"
| requeue_tick: "system_step env sys c prom g (Requeuer_runOnce env (requeuer (New env sys c prom)) g)"
| schedule_tick: "system_step env sys c prom g (Scheduler_runOnce env (scheduler (New env sys c prom)) g)"
| work: "worker_loop env we wid n g = (res, g') \<Longrightarrow> system_step env sys c prom g g'"

text \<open>Scraping the metrics changes nothing.\<close>

definition prom_reads :: "('s, 'q) handler \<Rightarrow> bool" where
  "prom_reads prom \<longleftrightarrow> (\<forall>r w g. snd (prom r (w, g)) = g)"

section \<open>The store\<close>

lemma get_handler_runs:
  "Handler_GetTask env (NewTaskHandler (NewPostgresTaskRepo env) p) r (w, g) = (w', g') \<Longrightarrow>
   pg_runs env no_set_status (store g) (store g')"
  using pg_repo.by_id_reaches [of env "store g"]
  by (auto simp: Handler_GetTask_def NewTaskHandler_def Let_def
      split: sum.splits prod.splits if_splits) (metis snd_conv)+

lemma screenshot_handler_frame:
  "Handler_GetTaskScreenshot env sys r (w, g) = (w', g') \<Longrightarrow> store g' = store g \<and> meters g' = meters g"
  by (auto simp: Handler_GetTaskScreenshot_def Let_def
      split: sum.splits open_result.splits option.splits)

lemma Instrument_frame:
  assumes "InstrumentHandler path h r (w, g) = (w', g')"
  obtains w1 g1 where "h r (w\<lparr>w_recorded := StatusOK\<rparr>, g) = (w1, g1)" and "store g' = store g1"
    and "TasksInProgress (meters g') = TasksInProgress (meters g1)"
    and "TasksCompletedTotal (meters g') = TasksCompletedTotal (meters g1)"
  using assms by (auto simp: InstrumentHandler_def Observe_def split: prod.splits)

section \<open>The task metrics\<close>

text \<open>\<open>meters_up m m'\<close>: the gauge does not go down and the completion counter stays.\<close>

definition meters_up :: "metrics \<Rightarrow> metrics \<Rightarrow> bool" where
  "meters_up m m' \<longleftrightarrow>
     TasksInProgress m \<le> TasksInProgress m' \<and> TasksCompletedTotal m' = TasksCompletedTotal m"

lemma meters_up_refl [simp]: "meters_up m m"
  by (simp add: meters_up_def)

lemma meters_up_trans: "meters_up a b \<Longrightarrow> meters_up b c \<Longrightarrow> meters_up a c"
  by (auto simp: meters_up_def)

lemma create_handler_meters:
  "Handler_CreateTask env h now r (w, g) = (w', g') \<Longrightarrow> meters_up (meters g) (meters g')"
  by (auto simp: Handler_CreateTask_def Let_def meters_up_def record_created_def
      split: sum.splits option.splits prod.splits if_splits)

lemma get_handler_meters: "Handler_GetTask env h r (w, g) = (w', g') \<Longrightarrow> meters g' = meters g"
  by (auto simp: Handler_GetTask_def Let_def split: sum.splits prod.splits if_splits)

section \<open>Requests\<close>

text \<open>What a request does to the store and to the task metrics.\<close>

definition request_ok :: "env \<Rightarrow> (pg, 'q) world \<Rightarrow> (pg, 'q) world \<Rightarrow> bool" where
  "request_ok env g g' \<longleftrightarrow>
     pg_runs env no_set_status (store g) (store g') \<and> meters_up (meters g) (meters g')"

lemma request_ok_refl [simp]: "request_ok env g g"
  by (simp add: request_ok_def)

lemma dispatch_ok:
  fixes g :: "(pg, 'q) world"
  assumes "dispatch env (NewTaskHandler (NewPostgresTaskRepo env) p) sys now prom rt r (w, g) = (w', g')"
    and "prom_reads prom"
  shows "request_ok env g g'"
proof (cases rt)
  case R_CreateTask
  with assms(1) have "InstrumentHandler (pattern_label rt)
      (Handler_CreateTask env (NewTaskHandler (NewPostgresTaskRepo env) p) now) r (w, g) = (w', g')"
    by (simp add: dispatch_def)
  then show ?thesis
    by (rule Instrument_frame)
      (use create_handler_runs create_handler_meters in \<open>fastforce simp: request_ok_def meters_up_def\<close>)
next
  case R_GetTask
  with assms(1) have "InstrumentHandler (pattern_label rt)
      (Handler_GetTask env (NewTaskHandler (NewPostgresTaskRepo env) p)) r (w, g) = (w', g')"
    by (simp add: dispatch_def)
  then show ?thesis
    by (rule Instrument_frame)
      (use get_handler_runs get_handler_meters in \<open>fastforce simp: request_ok_def meters_up_def\<close>)
next
  case R_Screenshot
  with assms(1) have "InstrumentHandler (pattern_label rt)
      (Handler_GetTaskScreenshot env sys) r (w, g) = (w', g')"
    by (simp add: dispatch_def)
  then show ?thesis
    by (rule Instrument_frame)
      (use screenshot_handler_frame in \<open>fastforce simp: request_ok_def meters_up_def\<close>)
next
  case R_Metrics
  with assms have "g' = g" by (simp add: dispatch_def prom_reads_def) (metis snd_conv)
  then show ?thesis by simp
next
  case R_Health
  with assms(1) show ?thesis by (simp add: dispatch_def health_handler_def)
qed

lemma Handler_ok:
  fixes g :: "(pg, 'q) world"
  assumes "Handler (New env sys c prom) now r (w, g) = (w', g')" and "prom_reads prom"
  shows "request_ok env g g'"
  using assms dispatch_ok [OF _ assms(2)]
  by (auto simp: New_def corsMiddleware_def mux_def Let_def split: option.splits if_splits prod.splits)

lemma system_step_ok:
  assumes "system_step env sys c prom g g'" and "prom_reads prom"
  shows "request_ok env g g'"
  using assms(1)
proof (cases rule: system_step.cases)
  case (request now r w')
  then show ?thesis using Handler_ok assms(2) by blast
next
  case requeue_tick
  have "rq_repo (requeuer (New env sys c prom)) = NewPostgresTaskRepo env"
    by (simp add: New_def NewRequeuer_def Let_def)
  from pg_repo.Requeuer_reaches [OF this, of g env] requeue_tick show ?thesis
    by (simp add: request_ok_def Requeuer_meters)
next
  case schedule_tick
  have "sc_repo (scheduler (New env sys c prom)) = NewPostgresTaskRepo env"
    by (simp add: New_def NewScheduler_def Let_def)
  from pg_repo.Scheduler_reaches [OF this, of g env] schedule_tick show ?thesis
    by (simp add: request_ok_def Scheduler_meters)
next
  case (work we wid n res)
  have "pg_runs env no_set_status (store g) (store g')"
    using worker_loop_runs [of wid no_set_status env g we n] work worker_fenced by force
  moreover have "meters g' = meters g"
    using worker_loop_meters [of env we wid n g] work by simp
  ultimately show ?thesis by (simp add: request_ok_def)
qed

lemma system_steps_ok:
  assumes "(system_step env sys c prom)\<^sup>*\<^sup>* g g'" and "prom_reads prom"
  shows "request_ok env g g'"
  using assms(1)
proof (induction rule: rtranclp_induct)
  case base
  then show ?case by simp
next
  case (step g1 g2)
  with system_step_ok [OF _ assms(2)] show ?case
    unfolding request_ok_def by (meson pg_runs_trans meters_up_trans)
qed

lemma pg_runs_weaken:
  "pg_runs env no_set_status s s' \<Longrightarrow> others_satisfy no_set_status s \<Longrightarrow>
   db_steps (jsonb_in env) no_set_status (clock s, rows s) (clock s', rows s')"
  by (simp add: pg_runs_def)

lemma create_answer_stored:
  assumes "Handler_CreateTask env (NewTaskHandler (NewPostgresTaskRepo env) p) now r (new_writer, g) = (w', g')"
    and "final_status w' = 200 \<or> final_status w' = 201"
  shows "\<exists>x\<in>set (rows (store g')). w_body w' = [JsonChunk (Task_json (uuid_String env) (scan_task x))]"
proof -
  have json: "final_status (writeJSON code v new_writer) = code"
    "w_body (writeJSON code v new_writer) = [JsonChunk v]" for code v
    by (simp_all add: writeJSON_def writer_defs final_status_def new_writer_def)
  from assms obtain req t where "CreateTask env req (store g) = (Inr t, store g')"
    "w_body w' = [JsonChunk (Task_json (uuid_String env) t)]"
    by (auto simp: Handler_CreateTask_def NewTaskHandler_def NewPostgresTaskRepo_def Let_def json
        writeError_def http_status split: sum.splits option.splits prod.splits if_splits)
  with create_stored [of env req "store g" t "store g'"] show ?thesis by auto
qed

end
