(* ===== verification/Spec_Props.thy ===== *)
theory Spec_Props
  imports Task_Spec Table_Props
begin

text \<open>
  The tasks table refines the specification of the task service, statement by statement
  and along every run of the database.
\<close>

section \<open>Statements\<close>

text \<open>C18: Every statement of the running system refines the specification.  On a sound table it
  either leaves the abstract state as it is (no row hit, a heartbeat, an error), or makes
  exactly the abstract step it stands for, enabled there: an insert submits a new task
  under a new key, a claim takes a task nobody holds, a result hands it back or completes
  it on behalf of the worker that holds it, and a requeue reclaims a held task.\<close>

theorem statements_refine_spec:
  assumes "table_ok now rs" and "no_set_status a"
  shows "spec_of (apply_action J now a rs) = spec_of rs \<or>
    (\<exists>e. event_of a = Some e \<and> spec_step e (spec_of rs) (spec_of (apply_action J now a rs)))"
  by (rule apply_action_abs [OF assms])

theorem statements_refine_spec_witness:
  "spec_step (Take 1 ''worker-1'') (spec_of [demo_row 1]) (spec_of [demo_running 1 5])"
proof -
  have "table_ok 5 [demo_row 1]" by (simp add: table_ok_def row_ok_def demo_rows int4_max_def)
  moreover have "spec_of [demo_running 1 5] 1 \<noteq> spec_of [demo_row 1] 1"
    by (simp add: spec_of_def sql_by_id_def abs_row_def demo_rows)
  ultimately show ?thesis
    using statements_refine_spec [of 5 "[demo_row 1]" "WClaim 1 ''worker-1''" Some] demo_claim
    by auto
qed

section \<open>Runs\<close>

text \<open>Every table the running system reaches from the empty one is explained by a history.\<close>

lemma db_history:
  assumes "db_steps J no_set_status (t0, []) (t, rs)"
  shows "\<exists>es. sound es \<and> spec_of rs = history_task es \<and>
    (\<forall>i. length (filter (completes i) es) \<le> 1) \<and>
    (\<forall>r\<in>set rs. c_attempts r = takes (c_id r) es)"
proof -
  obtain es where run: "spec_run es (spec_of []) (spec_of rs)"
    using table_sim.run_simulated [OF assms] by (auto simp: table_ok_def)
  moreover have empty: "spec_of [] = (\<lambda>_. None)" by (simp add: fun_eq_iff spec_of_None)
  ultimately have es: "sound es" "spec_of rs = history_task es"
    using spec_run_history [OF run] by auto
  have d: "distinct (map c_id rs)" using db_steps_table_ok [OF assms] by (simp add: table_ok_def)
  have "c_attempts r = takes (c_id r) es" if "r \<in> set rs" for r
  proof -
    have "history_task es (c_id r) = Some (abs_row r)" using spec_of_Some [OF d that] es(2) by simp
    then show ?thesis by (auto simp: history_task_def abs_row_def split: option.splits)
  qed
  then show ?thesis using es sound_completes [OF es(1)] by (intro exI [of _ es]) simp
qed

end
