(* ===== verification/Type_Props.thy ===== *)
theory Type_Props
  imports Repo_Props
begin

text \<open>
  The types the repository promises: every task it hands out has the values its struct and
  the schema allow, whatever the other processes do and also next to an error.
\<close>

section \<open>Well-typed tasks\<close>

definition well_typed :: "instant \<Rightarrow> Task \<Rightarrow> bool" where
  "well_typed now t \<longleftrightarrow>
     Status t \<in> {StatusPending, StatusInProgress, StatusSuccess, StatusFailed, StatusRetry,
       StatusDeadLetter} \<and>
     0 \<le> Attempts t \<and> Attempts t \<le> 2147483647 \<and> MaxAttempts t = 3 \<and>
     runes (ServiceName t) \<le> 255 \<and> runes (UserEmail t) \<le> 255 \<and>
     CreatedAt t \<le> UpdatedAt t \<and> UpdatedAt t \<le> now \<and>
     (LockedAt t = None \<longleftrightarrow> LockedBy t = None) \<and>
     (LockedAt t \<noteq> None \<longrightarrow> Status t = StatusInProgress)"

lemma scan_task_well_typed:
  assumes "row_ok now r"
  shows "well_typed now (scan_task r)"
  using assms
  by (cases "c_status r")
    (auto simp: well_typed_def row_ok_def scan_task_def status_defs int4_max_def varchar_ok_def
      split: option.splits)

lemma stored_well_typed:
  "table_ok now rs \<Longrightarrow> r \<in> set rs \<Longrightarrow> well_typed now (scan_task r)"
  by (rule scan_task_well_typed) (simp add: table_ok_def list_all_iff)

section \<open>Single tasks\<close>

lemma sql_claim_result:
  assumes "sql_claim i w now rs = (Inr (Some r), rs')"
  shows "r \<in> set rs' \<and> c_status r = IN_PROGRESS \<and> c_locked_at r \<noteq> None"
proof -
  obtain w' where w: "pg_varchar255 w = Inr w'"
    using assms by (cases "pg_varchar255 w") (auto simp: sql_claim_def)
  let ?f = "\<lambda>r. touch now (claim_row now w' r)"
  obtain x xs where x: "filter (claimable now i) rs = x # xs" "r = ?f x"
    and rs': "rs' = map (\<lambda>r. if claimable now i r then ?f r else r) rs"
    using assms w
    by (cases "filter (claimable now i) rs") (auto simp: sql_claim_def sql_update_def split: if_splits)
  from x(1) have "x \<in> set (filter (claimable now i) rs)" by simp
  with x(2) rs' show ?thesis by (auto simp: row_transformers)
qed

lemma claim_stored:
  assumes "ClaimTask env i w s = (Inr (Some t), s')"
  shows "\<exists>r\<in>set (rows s'). t = scan_task r \<and> c_status r = IN_PROGRESS \<and> c_locked_at r \<noteq> None"
proof -
  from assms have "query_row env (\<lambda>m. sql_claim i w) s = (Inr t, s')"
    by (auto simp: ClaimTask_def split: prod.splits sum.splits if_splits)
  then show ?thesis by (rule query_row_InrD) (blast dest: sql_claim_result)
qed

section \<open>Lists\<close>

lemma scan_loop_subset:
  "scan_loop msg xs err acc = (ts, e) \<Longrightarrow> set ts \<subseteq> set acc \<union> scan_task ` {r. Inr r \<in> set xs}"
proof (induction xs arbitrary: acc)
  case (Cons x xs)
  then show ?case
    by (cases x) (fastforce dest: Cons.IH)+
qed simp

lemma stream_subset: "stream f rs = (xs, err) \<Longrightarrow> Inr r \<in> set xs \<Longrightarrow> r \<in> set rs"
  by (cases f) (auto split: if_splits dest: in_set_takeD)

lemma query_rows_subset:
  assumes "query_rows env q m stmt s = ((ts, e), s')"
    and "\<And>mo now rs x rs'. stmt mo now rs = (Inr x, rs') \<Longrightarrow> set x \<subseteq> set rs \<and> rs' = rs"
  shows "set ts \<subseteq> scan_task ` set (rows s')"
proof (cases "fst (exec env stmt s)")
  case (Inl er)
  with assms(1) have "ts = []" by (auto simp: query_rows_def split: prod.splits)
  then show ?thesis by simp
next
  case (Inr rs)
  let ?m = "future s (calls s)"
  obtain xs err where st:
    "stream (m_rows_fault ?m) (sort_key (\<lambda>r. m_rank ?m (c_id r)) rs) = (xs, err)" by fastforce
  have e: "exec env stmt s = (Inr rs, s')" and sl: "scan_loop m xs err [] = (ts, e)"
    using assms(1) Inr st by (auto simp: query_rows_def Let_def split: prod.splits)
  have "set rs \<subseteq> set (rows s')" using assms(2) [OF exec_InrD(1) [OF e]] by auto
  moreover have "set ts \<subseteq> scan_task ` set rs"
    using scan_loop_subset [OF sl] stream_subset [OF st] by auto
  ultimately show ?thesis by blast
qed

lemma stale_stored:
  "GetStaleInProgressTasks env th s = ((ts, e), s') \<Longrightarrow> set ts \<subseteq> scan_task ` set (rows s')"
  unfolding GetStaleInProgressTasks_def
  by (erule query_rows_subset) (auto simp: sql_stale_def split: sum.splits)

lemma due_stored:
  "GetPendingScheduledTasks env s = ((ts, e), s') \<Longrightarrow> set ts \<subseteq> scan_task ` set (rows s')"
  unfolding GetPendingScheduledTasks_def
  by (erule query_rows_subset) (auto simp: sql_due_def)

section \<open>The property\<close>

text \<open>C22: The repository is well typed.  On a sound table, under any failures and any
  interference, every task a method returns has one of the six status constants, an
  \<open>Attempts\<close> between 0 and the largest INT, \<open>MaxAttempts\<close> 3, a service and an email of at
  most 255 characters, ordered timestamps, and a lock time exactly if it has a lock owner,
  and then the status IN_PROGRESS; a claimed task is IN_PROGRESS and locked.  This includes the
  tasks a scan returns next to an error.\<close>

theorem returned_tasks_well_typed:
  assumes "table_ok (clock s) (rows s)"
  shows "(\<forall>t s'. CreateTask env req s = (Inr t, s') \<longrightarrow> well_typed (clock s') t) \<and>
    (\<forall>t s'. GetTaskByID env i s = (Inr t, s') \<longrightarrow> well_typed (clock s') t) \<and>
    (\<forall>t s'. GetTaskByIdempotencyKey env k s = (Inr t, s') \<longrightarrow> well_typed (clock s') t) \<and>
    (\<forall>t s'. ClaimTask env i w s = (Inr (Some t), s') \<longrightarrow>
       well_typed (clock s') t \<and> Status t = StatusInProgress \<and> LockedBy t \<noteq> None) \<and>
    (\<forall>ts e s'. GetStaleInProgressTasks env th s = ((ts, e), s') \<longrightarrow> list_all (well_typed (clock s')) ts) \<and>
    (\<forall>ts e s'. GetPendingScheduledTasks env s = ((ts, e), s') \<longrightarrow> list_all (well_typed (clock s')) ts)"
proof -
  have typed: "well_typed (clock s') (scan_task r)"
    if "pg_runs env (\<lambda>_. True) s s'" "r \<in> set (rows s')" for s' r
    by (rule stored_well_typed [OF pg_runs_table_ok [OF that(1) assms] that(2)])
  note runs = runs_create [of "\<lambda>_. True" env s req] runs_by_id [of env "\<lambda>_. True" s i]
    runs_by_key [of env "\<lambda>_. True" s k] runs_claim [of "\<lambda>_. True" env s i w]
    runs_stale [of env "\<lambda>_. True" s th] runs_due [of env "\<lambda>_. True" s]
  have claim: "well_typed (clock s') t \<and> Status t = StatusInProgress \<and> LockedBy t \<noteq> None"
    if c: "ClaimTask env i w s = (Inr (Some t), s')" for t s'
  proof -
    obtain r where r: "r \<in> set (rows s')" "t = scan_task r" "c_status r = IN_PROGRESS"
      "c_locked_at r \<noteq> None" using claim_stored [OF c] by blast
    have "well_typed (clock s') t" using typed [OF _ r(1)] runs(4) c r(2) by simp
    with r(2-) show ?thesis by (auto simp: well_typed_def scan_task_def status_defs)
  qed
  have lists: "list_all (well_typed (clock s')) ts"
    if "pg_runs env (\<lambda>_. True) s s'" "set ts \<subseteq> scan_task ` set (rows s')" for ts s'
    using typed [OF that(1)] that(2) by (auto simp: list_all_iff)
  show ?thesis
    using runs typed lists claim
    by (intro conjI allI impI) (fastforce dest: create_stored by_id_stored by_key_stored
        stale_stored due_stored)+
qed

theorem returned_tasks_well_typed_witness:
  "well_typed 5 (scan_task (demo_running 1 5)) \<and> well_typed 40000000 (scan_task (demo_running 1 5))"
proof
  have "table_ok 5 [demo_row 1]" by (simp add: table_ok_def row_ok_def demo_rows int4_max_def)
  from returned_tasks_well_typed [of "demo_pg 5 [demo_row 1]" demo_env demo_req 1 1 "''worker-1''" 0]
    this demo_ClaimTask
  show "well_typed 5 (scan_task (demo_running 1 5))" by fastforce
  have "table_ok 40000000 [demo_row 2, demo_running 1 5]"
    by (simp add: table_ok_def row_ok_def demo_rows int4_max_def)
  from returned_tasks_well_typed [of "demo_pg 40000000 [demo_row 2, demo_running 1 5]" demo_env
      demo_req 1 1 "''worker-1''" staleLockThreshold] this demo_stale_scan
  show "well_typed 40000000 (scan_task (demo_running 1 5))" by fastforce
qed

end
