(* ===== verification/Worker_Liveness.thy ===== *)
theory Worker_Liveness
  imports Worker
begin

text \<open>
  Progress: over a healthy store and an answering Redis a single worker settles every
  queued task after a number of iterations that is known beforehand.
\<close>

section \<open>One row of the table\<close>

lemma sql_update_split:
  assumes "distinct (map c_id (ys @ r # zs))" and "\<And>x. P x \<Longrightarrow> c_id x = c_id r" and "P r" and "ok r"
  shows "sql_update now P ok g (ys @ r # zs) = (Inr [touch now (g r)], ys @ touch now (g r) # zs)"
proof -
  have "\<not> P x" if "x \<in> set ys \<union> set zs" for x
    using assms(1,2) that by (auto simp: image_iff)
  then have "filter P (ys @ r # zs) = [r]" "list_all (\<lambda>x. P x \<longrightarrow> ok x) (ys @ r # zs)"
    "map (\<lambda>x. if P x then touch now (g x) else x) ys = ys"
    "map (\<lambda>x. if P x then touch now (g x) else x) zs = zs"
    using assms(3,4) by (auto simp: filter_empty_conv list_all_iff intro!: map_idI)
  then show ?thesis using assms(3) by (simp add: sql_update_def)
qed

text \<open>A row that \<open>wid\<close> holds, and what heartbeats leave of it.\<close>

definition held_as :: "string \<Rightarrow> task_row \<Rightarrow> task_row \<Rightarrow> bool" where
  "held_as wid r r' \<longleftrightarrow>
     c_id r' = c_id r \<and> c_attempts r' = c_attempts r \<and> c_max r' = c_max r \<and>
     c_status r' = IN_PROGRESS \<and> c_locked_by r' = Some wid"

lemma pool_query_step:
  fixes w :: "(pg, 'q) world"
  assumes "healthy (store w)"
  obtains now w' where "pool_query env stmt w = (fst (stmt now (rows (store w))), w')"
    and "healthy (store w')" and "rows (store w') = snd (stmt now (rows (store w)))"
    and "redis w' = redis w"
proof -
  let ?now = "clock (store w) + int (m_elapsed (future (store w) (calls (store w))))"
  show thesis
  proof (rule that [of ?now "snd (pool_query env stmt w)"])
    show "pool_query env stmt w = (fst (stmt ?now (rows (store w))), snd (pool_query env stmt w))"
      "healthy (store (snd (pool_query env stmt w)))"
      "rows (store (snd (pool_query env stmt w))) = snd (stmt ?now (rows (store w)))"
      using assms by (simp_all add: pool_query_def exec_healthy [OF assms] Let_def healthy_def split: prod.split)
  qed simp
qed

lemma heartbeats_healthy:
  fixes w :: "(pg, 'q) world"
  assumes "uuid_in we tid = Some (c_id r)" and "healthy (store w)"
    and "rows (store w) = ys @ r1 # zs" and "held_as wid r r1"
    and "distinct (map c_id (rows (store w)))"
  shows "\<exists>r2. healthy (store (heartbeats env we wid tid n w)) \<and>
    rows (store (heartbeats env we wid tid n w)) = ys @ r2 # zs \<and> held_as wid r r2"
  using assms(2-)
proof (induction n arbitrary: w r1)
  case 0
  then show ?case by auto
next
  case (Suc n)
  obtain now w' where w': "pool_query env (with_id we tid (\<lambda>i. worker_heartbeat i wid)) w =
      (fst (with_id we tid (\<lambda>i. worker_heartbeat i wid) now (rows (store w))), w')"
    "healthy (store w')"
    "rows (store w') = snd (with_id we tid (\<lambda>i. worker_heartbeat i wid) now (rows (store w)))"
    using pool_query_step [OF Suc.prems(1)] by metis
  let ?r = "touch now (beat_row now r1)"
  have "sql_update now (beats (c_id r) wid) (\<lambda>_. True) (beat_row now) (ys @ r1 # zs) =
      (Inr [?r], ys @ ?r # zs)"
    using Suc.prems(3,4) unfolding Suc.prems(2)
    by (intro sql_update_split) (auto simp: held_as_def beats_def)
  then have rows': "rows (store w') = ys @ ?r # zs"
    using w'(3) assms(1) Suc.prems(2) by (simp add: with_id_def worker_heartbeat_def)
  have "held_as wid r ?r" using Suc.prems(3) by (simp add: held_as_def row_transformers)
  moreover have "distinct (map c_id (rows (store w')))"
    using Suc.prems(2,4) unfolding rows' by (simp add: row_transformers)
  ultimately show ?case using Suc.IH [OF w'(2) rows'] w'(1) by simp
qed

section \<open>One task\<close>

lemma owner_write:
  fixes w :: "(pg, 'q) world"
  assumes "uuid_in we tid = Some (c_id r)" and "healthy (store w)"
    and "rows (store w) = ys @ r1 # zs" and "held_as wid r r1"
    and "distinct (map c_id (rows (store w)))"
    and "\<And>now rs. stmt (c_id r) now rs = hit (sql_update now (owned (c_id r) wid) (\<lambda>_. True) g rs)"
  obtains now w' where "pool_query env (with_id we tid stmt) w = (Inr True, w')"
    and "healthy (store w')" and "rows (store w') = ys @ touch now (g r1) # zs" and "redis w' = redis w"
proof -
  obtain now w' where w': "pool_query env (with_id we tid stmt) w =
      (fst (with_id we tid stmt now (rows (store w))), w')" "healthy (store w')"
    "rows (store w') = snd (with_id we tid stmt now (rows (store w)))" "redis w' = redis w"
    using pool_query_step [OF assms(2)] by metis
  have "sql_update now (owned (c_id r) wid) (\<lambda>_. True) g (ys @ r1 # zs) =
      (Inr [touch now (g r1)], ys @ touch now (g r1) # zs)"
    using assms(4,5) unfolding assms(3)
    by (intro sql_update_split) (auto simp: held_as_def owned_def)
  then have "with_id we tid stmt now (rows (store w)) = (Inr True, ys @ touch now (g r1) # zs)"
    using assms(1,3,6) by (simp add: with_id_def hit_def)
  with w' that show thesis by simp
qed

text \<open>A task that needs no worker: finished, or scheduled for a later time.\<close>

definition settled :: "task_row \<Rightarrow> bool" where
  "settled r \<longleftrightarrow> c_status r \<in> {SUCCESS, FAILED, DEAD_LETTER} \<or>
     (c_status r = PENDING \<and> c_scheduled_for r \<noteq> None)"

definition storable_run :: "run_result \<Rightarrow> bool" where
  "storable_run res \<longleftrightarrow> pg_opt pg_text (run_error res) = Inr (run_error res) \<and>
     pg_opt pg_text (screenshot_path res) = Inr (screenshot_path res)"

text \<open>What the code makes of a result: the status it writes, the columns it sets with it, and
  the retry it pushes.\<close>

definition verdict :: "task_row \<Rightarrow> run_result \<Rightarrow> task_status" where
  "verdict task res =
     (if scheduled res then PENDING
      else if success res then SUCCESS
      else if c_attempts task \<ge> c_max task then DEAD_LETTER
      else RETRY)"

definition recorded :: "task_row \<Rightarrow> run_result \<Rightarrow> task_row \<Rightarrow> bool" where
  "recorded task res r \<longleftrightarrow>
     c_status r = verdict task res \<and>
     (verdict task res = PENDING \<longrightarrow> c_scheduled_for r = Some (scheduledFor res)) \<and>
     (verdict task res = RETRY \<longrightarrow> c_error r = run_error res) \<and>
     (verdict task res = DEAD_LETTER \<longrightarrow>
        c_error r = run_error res \<and> c_evidence r = screenshot_path res)"

definition released_as :: "task_row \<Rightarrow> task_row \<Rightarrow> bool" where
  "released_as task r \<longleftrightarrow>
     c_id r = c_id task \<and> c_attempts r = c_attempts task \<and> c_max r = c_max task \<and>
     c_locked_at r = None \<and> c_locked_by r = None"

definition repushed :: "task_row \<Rightarrow> string \<Rightarrow> string list \<Rightarrow> string list" where
  "repushed r tid vs = (if c_status r = RETRY then tid # vs else vs)"

definition processed :: "'q worker_env \<Rightarrow> task_row \<Rightarrow> task_row \<Rightarrow> bool" where
  "processed we task r \<longleftrightarrow>
     released_as task r \<and>
     (case getAutomation (c_service task) of
        None \<Rightarrow> c_status r = DEAD_LETTER \<and>
          c_error r = Some (''No automation found for service: '' @ c_service task)
      | Some a \<Rightarrow> recorded task (caught (snd (run_automation we a task))) r)"

text \<open>The outcome of one processing: settled, or marked for retry and pushed again.\<close>

definition outcome_ok ::
  "task_row \<Rightarrow> task_row \<Rightarrow> string \<Rightarrow> string list \<Rightarrow> string list \<Rightarrow> bool" where
  "outcome_ok r r' tid vs vs' \<longleftrightarrow>
     c_id r' = c_id r \<and> c_attempts r' = c_attempts r + 1 \<and> c_max r' = c_max r \<and>
     (settled r' \<and> vs' = vs \<or>
      c_status r' = RETRY \<and> c_attempts r' < c_max r' \<and> vs' = tid # vs)"

lemma processed_outcome_ok:
  assumes "processed we task r'" and "c_id task = c_id r" and "c_attempts task = c_attempts r + 1"
    and "c_max task = c_max r"
  shows "outcome_ok r r' tid vs (repushed r' tid vs)"
proof (cases "getAutomation (c_service task)")
  case None
  with assms show ?thesis
    by (simp add: processed_def released_as_def outcome_ok_def settled_def repushed_def)
next
  case (Some a)
  with assms show ?thesis
    by (auto simp: processed_def released_as_def recorded_def verdict_def outcome_ok_def settled_def
        repushed_def split: if_splits)
qed

lemmas handled_defs = recorded_def verdict_def released_as_def repushed_def

lemma handle_result_outcome:
  fixes w :: "(pg, 'q) world"
  assumes id: "uuid_in we tid = Some (c_id task)" and h: "healthy (store w)"
    and rs: "rows (store w) = ys @ r1 # zs" and held: "held_as wid task r1"
    and d: "distinct (map c_id (rows (store w)))" and run: "storable_run res" and up: "redis_up (lpush we)" "lpush_law (lpush we) items"
  shows "\<exists>w' r'. handle_result env we wid tid task res w = (Inr (), w') \<and> healthy (store w') \<and>
    rows (store w') = ys @ r' # zs \<and> released_as task r' \<and> recorded task res r' \<and>
    pending items (redis w') = repushed r' tid (pending items (redis w))"
proof -
  have wr: "\<exists>now w'. pool_query env (with_id we tid stmt) w = (Inr True, w') \<and> healthy (store w') \<and>
      rows (store w') = ys @ touch now (g r1) # zs \<and> redis w' = redis w"
    if "\<And>now rs. stmt (c_id task) now rs = hit (sql_update now (owned (c_id task) wid) (\<lambda>_. True) g rs)"
    for stmt g
    by (rule owner_write [where stmt = stmt and g = g and env = env, OF id h rs held d that]) blast+
  consider "scheduled res" | "\<not> scheduled res" "success res"
    | "\<not> scheduled res" "\<not> success res" "c_attempts task \<ge> c_max task"
    | "\<not> scheduled res" "\<not> success res" "c_attempts task < c_max task" by linarith
  then show ?thesis
  proof cases
    case 1
    obtain now w' where "pool_query env (with_id we tid
        (\<lambda>i. worker_scheduleTask i wid (scheduledFor res))) w = (Inr True, w')"
      "healthy (store w')" "rows (store w') = ys @ touch now (schedule_row (scheduledFor res) r1) # zs"
      "redis w' = redis w"
      using wr [of "\<lambda>i. worker_scheduleTask i wid (scheduledFor res)"
          "schedule_row (scheduledFor res)"] by (fastforce simp: worker_scheduleTask_def)
    with 1 held show ?thesis
      by (simp add: handle_result_def settle_def handled_defs row_transformers held_as_def)
  next
    case 2
    obtain now w' where "pool_query env (with_id we tid (\<lambda>i. worker_updateTaskSuccess i wid)) w = (Inr True, w')"
      "healthy (store w')" "rows (store w') = ys @ touch now (success_row r1) # zs" "redis w' = redis w"
      using wr [of "\<lambda>i. worker_updateTaskSuccess i wid" success_row]
      by (fastforce simp: worker_updateTaskSuccess_def)
    with 2 held show ?thesis
      by (simp add: handle_result_def settle_def handled_defs row_transformers held_as_def)
  next
    case 3
    obtain now w' where "pool_query env (with_id we tid
        (\<lambda>i. worker_updateTaskDeadLetter i wid (run_error res) (screenshot_path res))) w = (Inr True, w')"
      "healthy (store w')"
      "rows (store w') = ys @ touch now (dead_row (run_error res) (screenshot_path res) r1) # zs"
      "redis w' = redis w"
      using wr [of "\<lambda>i. worker_updateTaskDeadLetter i wid (run_error res) (screenshot_path res)"
          "dead_row (run_error res) (screenshot_path res)"] run
      by (fastforce simp: worker_updateTaskDeadLetter_def storable_run_def)
    with 3 held show ?thesis
      by (simp add: handle_result_def settle_def handled_defs row_transformers held_as_def)
  next
    case 4
    obtain now w1 where w1: "pool_query env (with_id we tid
        (\<lambda>i. worker_updateTaskRetry i wid (run_error res))) w = (Inr True, w1)"
      "healthy (store w1)" "rows (store w1) = ys @ touch now (retry_row (run_error res) r1) # zs"
      "redis w1 = redis w"
      using wr [of "\<lambda>i. worker_updateTaskRetry i wid (run_error res)" "retry_row (run_error res)"] run
      by (fastforce simp: worker_updateTaskRetry_def storable_run_def)
    obtain q' where q': "lpush we TaskQueueKey tid (redis w) = (None, q')"
      using up(1) unfolding redis_up_def by (metis prod.collapse)
    have "pending items q' = tid # pending items (redis w)"
      using lpush_lawD(1) [OF up(2) q'] by (simp add: pending_def)
    with 4 held w1 q' show ?thesis
      by (simp add: handle_result_def handled_defs row_transformers held_as_def)
  qed
qed

text \<open>What the worker relies on: an answering Redis, UUIDs that read back, a worker name that
  fits its column, and automations whose texts can be stored.\<close>

definition worker_ok :: "env \<Rightarrow> 'q worker_env \<Rightarrow> string \<Rightarrow> ('q \<Rightarrow> string \<Rightarrow> string list) \<Rightarrow> bool" where
  "worker_ok env we wid items \<longleftrightarrow>
     redis_up (lpush we) \<and> lpush_law (lpush we) items \<and> brpop_up (brpop we) \<and>
     brpop_law (brpop we) items \<and> (\<forall>i. uuid_in we (uuid_String env i) = Some i) \<and>
     pg_varchar255 wid = Inr wid \<and> (\<forall>r. storable_run (caught (snd (universal we r))))"

lemma storable_no_result: "storable_run (no_result\<lparr>run_error := e\<rparr>)" if "pg_opt pg_text e = Inr e"
  using that by (simp add: storable_run_def no_result_def screenshot_path_def)

lemma run_automation_storable:
  assumes "worker_ok env we wid items"
  shows "storable_run (caught (snd (run_automation we a task)))"
proof (cases a)
  case Universal
  with assms show ?thesis by (simp add: run_automation_def worker_ok_def)
next
  case InheritedPrototype
  then show ?thesis
    by (simp add: run_automation_def caught_def pg_text_def storable_no_result)
qed (simp_all add: run_automation_def caught_def storable_run_def no_result_def screenshot_path_def)

text \<open>The claim, and the run of the automation up to its result.\<close>

abbreviation claimed_row :: "instant \<Rightarrow> string \<Rightarrow> task_row \<Rightarrow> task_row" where
  "claimed_row now wid r \<equiv> touch now (claim_row now wid r)"

lemma claimed_row_simps [simp]:
  "c_id (claimed_row now wid r) = c_id r" "c_attempts (claimed_row now wid r) = c_attempts r + 1"
  "c_max (claimed_row now wid r) = c_max r" "c_service (claimed_row now wid r) = c_service r"
  "held_as wid (claimed_row now wid r) (claimed_row now wid r)"
  by (simp_all add: row_transformers held_as_def)

lemma claim_step:
  fixes w :: "(pg, 'q) world"
  assumes "uuid_in we tid = Some (c_id r)" and "pg_varchar255 wid = Inr wid" and h: "healthy (store w)"
    and rs: "rows (store w) = ys @ r # zs" and d: "distinct (map c_id (rows (store w)))"
    and r: "worker_claimable (c_id r) r" "attempts_room r"
  obtains now w1 where
    "pool_query env (with_id we tid (\<lambda>i. worker_claimTask i wid)) w = (Inr (Some (claimed_row now wid r)), w1)"
    and "healthy (store w1)" and "rows (store w1) = ys @ claimed_row now wid r # zs"
    and "redis w1 = redis w" and "distinct (map c_id (rows (store w1)))"
proof -
  let ?claim = "with_id we tid (\<lambda>i. worker_claimTask i wid)"
  obtain now w1 where w1: "pool_query env ?claim w = (fst (?claim now (rows (store w))), w1)"
    "healthy (store w1)" "rows (store w1) = snd (?claim now (rows (store w)))" "redis w1 = redis w"
    using pool_query_step [OF h] by metis
  have "sql_update now (worker_claimable (c_id r)) attempts_room (claim_row now wid) (ys @ r # zs) =
      (Inr [claimed_row now wid r], ys @ claimed_row now wid r # zs)"
    using d r unfolding rs by (intro sql_update_split) (auto simp: worker_claimable_def)
  then have "?claim now (rows (store w)) =
      (Inr (Some (claimed_row now wid r)), ys @ claimed_row now wid r # zs)"
    using assms(1,2) rs by (simp add: with_id_def worker_claimTask_def)
  moreover from this w1(3) have "distinct (map c_id (rows (store w1)))"
    using d by (simp add: rs)
  ultimately show thesis using that [of now w1] w1 by simp
qed

lemma processTask_run:
  fixes w :: "(pg, 'q) world"
  assumes id: "uuid_in we tid = Some (c_id r)" and "pg_varchar255 wid = Inr wid"
    and "healthy (store w)" and "rows (store w) = ys @ r # zs"
    and "distinct (map c_id (rows (store w)))" and "worker_claimable (c_id r) r" "attempts_room r"
    and a: "getAutomation (c_service r) = Some a"
  obtains now w2 r2 where
    "processTask env we wid tid w = handle_result env we wid tid (claimed_row now wid r)
       (caught (snd (run_automation we a (claimed_row now wid r)))) w2"
    and "healthy (store w2)" and "rows (store w2) = ys @ r2 # zs"
    and "held_as wid (claimed_row now wid r) r2" and "redis w2 = redis w"
    and "distinct (map c_id (rows (store w2)))"
proof -
  obtain now w1 where w1: "pool_query env (with_id we tid (\<lambda>i. worker_claimTask i wid)) w =
      (Inr (Some (claimed_row now wid r)), w1)" "healthy (store w1)"
    "rows (store w1) = ys @ claimed_row now wid r # zs" "redis w1 = redis w"
    "distinct (map c_id (rows (store w1)))"
    using claim_step [where env = env, OF assms(1-7)] .
  obtain n run where run: "run_automation we a (claimed_row now wid r) = (n, run)" by fastforce
  let ?w2 = "heartbeats env we wid tid n w1"
  have id1: "uuid_in we tid = Some (c_id (claimed_row now wid r))" using id by simp
  obtain r2 where w2: "healthy (store ?w2)" "rows (store ?w2) = ys @ r2 # zs"
    "held_as wid (claimed_row now wid r) r2"
    using heartbeats_healthy [OF id1 w1(2,3) claimed_row_simps(5) w1(5)] by metis
  have "distinct (map c_id (rows (store ?w2)))"
    using w1(5) w2(3) unfolding w2(2) w1(3) by (simp add: held_as_def)
  with w2 w1(1,4) run a show thesis
    by (intro that [of now ?w2 r2]) (simp_all add: processTask_def)
qed

lemma processTask_unsupported:
  fixes w :: "(pg, 'q) world"
  assumes id: "uuid_in we tid = Some (c_id r)" and "pg_varchar255 wid = Inr wid"
    and "healthy (store w)" and "rows (store w) = ys @ r # zs"
    and "distinct (map c_id (rows (store w)))" and "worker_claimable (c_id r) r" "attempts_room r"
    and a: "getAutomation (c_service r) = None" and s: "varchar_ok (c_service r)"
  obtains now w' r' where "processTask env we wid tid w = (Inr (), w')"
    and "healthy (store w')" and "rows (store w') = ys @ r' # zs"
    and "processed we (claimed_row now wid r) r'" and "c_status r' = DEAD_LETTER" and "redis w' = redis w"
proof -
  obtain now w1 where w1: "pool_query env (with_id we tid (\<lambda>i. worker_claimTask i wid)) w =
      (Inr (Some (claimed_row now wid r)), w1)" "healthy (store w1)"
    "rows (store w1) = ys @ claimed_row now wid r # zs" "redis w1 = redis w"
    "distinct (map c_id (rows (store w1)))"
    using claim_step [where env = env, OF assms(1-7)] .
  let ?err = "''No automation found for service: '' @ c_service r"
  let ?dead = "\<lambda>i. worker_updateTaskDeadLetter i wid (Some ?err) None"
  have id1: "uuid_in we tid = Some (c_id (claimed_row now wid r))" using id by simp
  have "pg_opt pg_text (Some ?err) = Inr (Some ?err)" using s by (simp add: pg_text_def varchar_ok_def)
  then have "?dead (c_id (claimed_row now wid r)) now' rs' = hit (sql_update now'
      (owned (c_id (claimed_row now wid r)) wid) (\<lambda>_. True) (dead_row (Some ?err) None) rs')" for now' rs'
    by (simp add: worker_updateTaskDeadLetter_def)
  from owner_write [where stmt = ?dead and env = env, OF id1 w1(2,3) claimed_row_simps(5) w1(5) this]
  obtain now' w' where w': "pool_query env (with_id we tid ?dead) w1 = (Inr True, w')"
    "healthy (store w')"
    "rows (store w') = ys @ touch now' (dead_row (Some ?err) None (claimed_row now wid r)) # zs"
    "redis w' = redis w1" by blast
  show thesis
    by (rule that [of w' "touch now' (dead_row (Some ?err) None (claimed_row now wid r))" now])
      (use w' w1 a in \<open>simp_all add: processTask_def settle_def processed_def released_as_def
        touch_def dead_row_def claim_row_def\<close>)
qed

lemma processTask_processed:
  fixes w :: "(pg, 'q) world"
  assumes ok: "worker_ok env we wid items" and h: "healthy (store w)"
    and rs: "rows (store w) = ys @ r # zs" and d: "distinct (map c_id (rows (store w)))"
    and r: "worker_claimable (c_id r) r" "attempts_room r" "varchar_ok (c_service r)"
  shows "\<exists>now w' r'. processTask env we wid (uuid_String env (c_id r)) w = (Inr (), w') \<and>
    healthy (store w') \<and> rows (store w') = ys @ r' # zs \<and>
    processed we (claimed_row now wid r) r' \<and>
    pending items (redis w') = repushed r' (uuid_String env (c_id r)) (pending items (redis w))"
proof -
  let ?tid = "uuid_String env (c_id r)"
  have id: "uuid_in we ?tid = Some (c_id r)" and wid: "pg_varchar255 wid = Inr wid"
    and up: "redis_up (lpush we)" "lpush_law (lpush we) items"
    using ok by (simp_all add: worker_ok_def)
  show ?thesis
  proof (cases "getAutomation (c_service r)")
    case None
    show ?thesis
      by (rule processTask_unsupported [where env = env, OF id wid h rs d r(1,2) None r(3)])
        (intro exI conjI, assumption+, simp add: repushed_def)
  next
    case (Some a)
    obtain now w2 r2 where w2: "processTask env we wid ?tid w =
        handle_result env we wid ?tid (claimed_row now wid r)
          (caught (snd (run_automation we a (claimed_row now wid r)))) w2"
      "healthy (store w2)" "rows (store w2) = ys @ r2 # zs" "held_as wid (claimed_row now wid r) r2"
      "redis w2 = redis w" "distinct (map c_id (rows (store w2)))"
      using processTask_run [where env = env, OF id wid h rs d r(1,2) Some] .
    have id1: "uuid_in we ?tid = Some (c_id (claimed_row now wid r))" using id by simp
    from handle_result_outcome [OF id1 w2(2,3,4,6) run_automation_storable [OF ok] up, of env] Some
    show ?thesis unfolding w2(1,5) processed_def by (intro exI [of _ now]) fastforce
  qed
qed

lemma processTask_outcome:
  fixes w :: "(pg, 'q) world"
  assumes "worker_ok env we wid items" and "healthy (store w)"
    and "rows (store w) = ys @ r # zs" and "distinct (map c_id (rows (store w)))"
    and "worker_claimable (c_id r) r" "attempts_room r" "varchar_ok (c_service r)"
  shows "\<exists>w' r'. processTask env we wid (uuid_String env (c_id r)) w = (Inr (), w') \<and> healthy (store w') \<and>
    rows (store w') = ys @ r' # zs \<and>
    outcome_ok r r' (uuid_String env (c_id r)) (pending items (redis w)) (pending items (redis w'))"
proof -
  obtain now w' r' where w': "processTask env we wid (uuid_String env (c_id r)) w = (Inr (), w')"
    "healthy (store w')" "rows (store w') = ys @ r' # zs"
    and p: "processed we (touch now (claim_row now wid r)) r'"
    and q: "pending items (redis w') = repushed r' (uuid_String env (c_id r)) (pending items (redis w))"
    using processTask_processed [OF assms] by blast
  have "outcome_ok r r' (uuid_String env (c_id r)) (pending items (redis w)) (pending items (redis w'))"
    unfolding q by (rule processed_outcome_ok [OF p]) (simp_all add: row_transformers)
  with w' show ?thesis by blast
qed

text \<open>An entry that matches no claimable row is skipped.\<close>

lemma processTask_skip:
  fixes w :: "(pg, 'q) world"
  assumes "worker_ok env we wid items" and "healthy (store w)"
    and "\<And>r. r \<in> set (rows (store w)) \<Longrightarrow> \<not> worker_claimable i r"
  shows "\<exists>w'. processTask env we wid (uuid_String env i) w = (Inr (), w') \<and> healthy (store w') \<and>
    rows (store w') = rows (store w) \<and> redis w' = redis w"
proof -
  let ?claim = "with_id we (uuid_String env i) (\<lambda>i. worker_claimTask i wid)"
  obtain now w1 where w1: "pool_query env ?claim w = (fst (?claim now (rows (store w))), w1)"
    "healthy (store w1)" "rows (store w1) = snd (?claim now (rows (store w)))" "redis w1 = redis w"
    using pool_query_step [OF assms(2)] by metis
  have "filter (worker_claimable i) (rows (store w)) = []"
    "list_all (\<lambda>r. worker_claimable i r \<longrightarrow> attempts_room r) (rows (store w))"
    "map (\<lambda>r. if worker_claimable i r then touch now (claim_row now wid r) else r) (rows (store w)) =
      rows (store w)"
    using assms(3) by (auto simp: filter_empty_conv list_all_iff intro!: map_idI)
  then have "?claim now (rows (store w)) = (Inr None, rows (store w))"
    using assms(1) by (simp add: worker_ok_def with_id_def worker_claimTask_def sql_update_def)
  with w1 show ?thesis by (simp add: processTask_def)
qed

section \<open>Draining the queue\<close>

text \<open>The bound on the work left: the queued entries and the attempts the tasks still have.\<close>

definition tries_left :: "task_row \<Rightarrow> nat" where
  "tries_left r = nat (c_max r - c_attempts r)"

definition potential :: "('q \<Rightarrow> string \<Rightarrow> string list) \<Rightarrow> (pg, 'q) world \<Rightarrow> nat" where
  "potential items w = length (pending items (redis w)) + sum_list (map tries_left (rows (store w)))"

text \<open>
  The state between two tasks: nothing is running, every task that needs a worker is
  queued, the queue holds UUIDs, and the attempts column has room for the work left.
\<close>

definition live :: "env \<Rightarrow> ('q \<Rightarrow> string \<Rightarrow> string list) \<Rightarrow> (pg, 'q) world \<Rightarrow> bool" where
  "live env items w \<longleftrightarrow>
     healthy (store w) \<and> table_ok (clock (store w)) (rows (store w)) \<and>
     (\<exists>is. pending items (redis w) = map (uuid_String env) is \<and>
        list_all (\<lambda>r. needs_worker r \<longrightarrow> c_id r \<in> set is) (rows (store w))) \<and>
     list_all (\<lambda>r. c_status r \<noteq> IN_PROGRESS \<and> c_attempts r + int (potential items w) \<le> int4_max)
       (rows (store w))"

lemma processTask_table_ok:
  assumes "table_ok (clock (store w)) (rows (store w))" and "processTask env we wid tid w = (res, w')"
  shows "table_ok (clock (store w')) (rows (store w'))"
  using pg_runs_table_ok [OF _ assms(1)] processTask_runs [of wid "\<lambda>_. True" env w we tid] assms(2)
  by simp

lemma claimable_needs: "needs_worker r \<Longrightarrow> worker_claimable (c_id r) r"
  by (auto simp: needs_worker_def worker_claimable_def)

lemma settled_facts: "settled r \<Longrightarrow> \<not> needs_worker r \<and> c_status r \<noteq> IN_PROGRESS"
  by (auto simp: settled_def needs_worker_def)

lemma live_claim:
  fixes w :: "(pg, 'q) world"
  assumes ok: "worker_ok env we wid items" and l: "live env items w"
    and p: "pending items (redis w) = map (uuid_String env) (js @ [c_id r])"
    and q: "pending items q' = map (uuid_String env) js"
    and r: "r \<in> set (rows (store w))" "worker_claimable (c_id r) r"
  shows "\<exists>w'. processTask env we wid (uuid_String env (c_id r)) (w\<lparr>redis := q'\<rparr>) = (Inr (), w') \<and>
    live env items w' \<and> potential items w' < potential items w"
proof -
  let ?w = "w\<lparr>redis := q'\<rparr>"
  have h: "healthy (store ?w)" and t: "table_ok (clock (store ?w)) (rows (store ?w))"
    using l by (simp_all add: live_def)
  obtain ys zs where rs: "rows (store w) = ys @ r # zs" using split_list r(1) by metis
  then have rs': "rows (store ?w) = ys @ r # zs" by simp
  have d: "distinct (map c_id (rows (store ?w)))" using t by (simp add: table_ok_def)
  have room: "c_attempts r + int (potential items w) \<le> int4_max"
    using l r(1) by (simp add: live_def list_all_iff)
  moreover have "potential items w \<ge> 1" using p by (simp add: potential_def)
  ultimately have "attempts_room r" by (simp add: attempts_room_def)
  moreover have "varchar_ok (c_service r)" using t r(1) by (simp add: table_ok_def list_all_iff row_ok_def)
  ultimately obtain w' r' where w': "processTask env we wid (uuid_String env (c_id r)) ?w = (Inr (), w')"
    "healthy (store w')" "rows (store w') = ys @ r' # zs"
    and out: "outcome_ok r r' (uuid_String env (c_id r)) (map (uuid_String env) js) (pending items (redis w'))"
    using processTask_outcome [OF ok h rs' d r(2)] q by auto
  have t': "table_ok (clock (store w')) (rows (store w'))" by (rule processTask_table_ok [OF t w'(1)])
  have pot: "potential items w' < potential items w"
    using out p unfolding potential_def w'(3) rs
    by (auto simp: outcome_ok_def tries_left_def)
  have others: "c_id x \<noteq> c_id r" if "x \<in> set ys \<union> set zs" for x
    using d that unfolding rs' by (auto simp: image_iff)
  have bound: "c_status x \<noteq> IN_PROGRESS \<and> c_attempts x + int (potential items w') \<le> int4_max"
    if "x \<in> set (rows (store w'))" for x
  proof (cases "x = r'")
    case True
    with out room pot settled_facts [of r'] show ?thesis by (auto simp: outcome_ok_def)
  next
    case False
    with that have "x \<in> set (rows (store w))" unfolding w'(3) rs by auto
    with l pot show ?thesis by (auto simp: live_def list_all_iff)
  qed
  obtain ks where "map (uuid_String env) ks = map (uuid_String env) (js @ [c_id r])"
    and need: "\<And>x. x \<in> set (rows (store w)) \<Longrightarrow> needs_worker x \<Longrightarrow> c_id x \<in> set ks"
    using l p unfolding live_def list_all_iff by auto
  then have "ks = js @ [c_id r]"
    using ok by (metis (mono_tags, lifting) worker_ok_def inj_on_def map_injective option.inject inj_def)
  with need others have ids: "c_id x \<in> set js" if "x \<in> set ys \<union> set zs" "needs_worker x" for x
    using that rs by fastforce
  have "\<exists>ks. pending items (redis w') = map (uuid_String env) ks \<and>
      list_all (\<lambda>r. needs_worker r \<longrightarrow> c_id r \<in> set ks) (rows (store w'))"
  proof (cases "settled r'")
    case True
    then have "pending items (redis w') = map (uuid_String env) js" using out by (auto simp: outcome_ok_def settled_def)
    with True ids settled_facts [of r'] show ?thesis
      unfolding w'(3) list_all_iff by (intro exI [where x = js]) auto
  next
    case False
    then have "pending items (redis w') = map (uuid_String env) (c_id r # js)" "c_id r' = c_id r"
      using out by (auto simp: outcome_ok_def)
    with ids show ?thesis
      unfolding w'(3) list_all_iff by (intro exI [where x = "c_id r # js"]) auto
  qed
  with w'(1,2) t' bound pot show ?thesis by (auto simp: live_def list_all_iff)
qed

lemma live_skip:
  fixes w :: "(pg, 'q) world"
  assumes ok: "worker_ok env we wid items" and l: "live env items w"
    and p: "pending items (redis w) = map (uuid_String env) (js @ [i])"
    and q: "pending items q' = map (uuid_String env) js"
    and r: "\<And>r. r \<in> set (rows (store w)) \<Longrightarrow> \<not> worker_claimable i r"
  shows "\<exists>w'. processTask env we wid (uuid_String env i) (w\<lparr>redis := q'\<rparr>) = (Inr (), w') \<and>
    live env items w' \<and> potential items w' < potential items w"
proof -
  let ?w = "w\<lparr>redis := q'\<rparr>"
  have h: "healthy (store ?w)" and t: "table_ok (clock (store ?w)) (rows (store ?w))"
    using l by (simp_all add: live_def)
  obtain w' where w': "processTask env we wid (uuid_String env i) ?w = (Inr (), w')"
    "healthy (store w')" "rows (store w') = rows (store w)" "redis w' = q'"
    using processTask_skip [OF ok h] r by auto
  have pot: "potential items w' < potential items w"
    using p q w' by (simp add: potential_def)
  obtain ks where "map (uuid_String env) ks = map (uuid_String env) (js @ [i])"
    and need: "\<And>x. x \<in> set (rows (store w)) \<Longrightarrow> needs_worker x \<Longrightarrow> c_id x \<in> set ks"
    using l p unfolding live_def list_all_iff by auto
  then have "ks = js @ [i]"
    using ok by (metis (mono_tags, lifting) worker_ok_def inj_on_def map_injective option.inject inj_def)
  with need r claimable_needs have "c_id x \<in> set js" if "x \<in> set (rows (store w))" "needs_worker x" for x
    using that by fastforce
  with l pot w' q processTask_table_ok [OF t w'(1)] show ?thesis
    unfolding live_def list_all_iff by (intro exI [where x = w']) fastforce
qed

text \<open>One round of the loop keeps the state live; it lowers the bound, or finds the queue empty
  and leaves it so.\<close>

lemma live_same_pending:
  assumes "live env items w" and "pending items q = pending items (redis w)"
  shows "live env items (w\<lparr>redis := q\<rparr>)"
  using assms by (simp add: live_def potential_def)

lemma live_round:
  fixes w :: "(pg, 'q) world"
  assumes ok: "worker_ok env we wid items" and l: "live env items w"
  obtains w' where "\<And>n. worker_loop env we wid (Suc n) w = worker_loop env we wid n w'"
    and "live env items w'"
    and "if pending items (redis w) = [] then pending items (redis w') = []
      else potential items w' < potential items w"
proof -
  have law: "brpop_law (brpop we) items" and up: "brpop_up (brpop we)"
    using ok by (simp_all add: worker_ok_def)
  show thesis
  proof (cases "pending items (redis w) = []")
    case True
    obtain r q' where b: "brpop we TaskQueueKey (redis w) = (Inr r, q')"
      using up unfolding brpop_up_def by (metis prod.collapse)
    with True brpop_pending [OF law] have "r = None" "pending items q' = []"
      by (cases r; fastforce)+
    with b True live_same_pending [OF l, of q'] show thesis
      by (intro that [of "w\<lparr>redis := q'\<rparr>"]) simp_all
  next
    case False
    obtain ks where "pending items (redis w) = map (uuid_String env) ks" using l by (auto simp: live_def)
    with False obtain js i where p: "pending items (redis w) = map (uuid_String env) (js @ [i])"
      by (metis map_is_Nil_conv rev_exhaust)
    then obtain q' where q': "brpop we TaskQueueKey (redis w) = (Inr (Some (uuid_String env i)), q')"
      "pending items q' = map (uuid_String env) js"
      using brpop_tail [OF law up, of "redis w" "map (uuid_String env) js" "uuid_String env i"] by auto
    have "\<exists>w'. processTask env we wid (uuid_String env i) (w\<lparr>redis := q'\<rparr>) = (Inr (), w') \<and>
        live env items w' \<and> potential items w' < potential items w"
    proof (cases "\<exists>r\<in>set (rows (store w)). worker_claimable i r")
      case True
      then obtain r where "r \<in> set (rows (store w))" "worker_claimable i r" "c_id r = i"
        by (auto simp: worker_claimable_def)
      with live_claim [OF ok l _ q'(2), of r] p show ?thesis by auto
    next
      case False
      with live_skip [OF ok l p q'(2)] show ?thesis by blast
    qed
    then obtain w1 where "processTask env we wid (uuid_String env i) (w\<lparr>redis := q'\<rparr>) = (Inr (), w1)"
      "live env items w1" "potential items w1 < potential items w" by blast
    with q'(1) False show thesis by (intro that [of w1]) simp_all
  qed
qed

lemma live_idle_settled:
  "live env items w \<Longrightarrow> pending items (redis w) = [] \<Longrightarrow> r \<in> set (rows (store w)) \<Longrightarrow> settled r"
  by (cases "c_status r") (auto simp: live_def list_all_iff needs_worker_def settled_def)

text \<open>Several workers take rounds of their loops in any order.\<close>

fun fleet_run ::
  "env \<Rightarrow> ('q worker_env \<times> string) list \<Rightarrow> (pg, 'q) world \<Rightarrow> unit result \<times> (pg, 'q) world" where
  "fleet_run env [] w = (Inr (), w)"
| "fleet_run env ((we, wid) # ws) w =
     (case worker_loop env we wid 1 w of
        (Inl e, w') \<Rightarrow> (Inl e, w')
      | (Inr u, w') \<Rightarrow> fleet_run env ws w')"

definition fleet_ok :: "env \<Rightarrow> ('q worker_env \<times> string) list \<Rightarrow> ('q \<Rightarrow> string \<Rightarrow> string list) \<Rightarrow> bool" where
  "fleet_ok env ws items \<longleftrightarrow> list_all (\<lambda>(we, wid). worker_ok env we wid items) ws"

lemma fleet_settles:
  fixes w :: "(pg, 'q) world"
  shows "fleet_ok env ws items \<Longrightarrow> live env items w \<Longrightarrow>
    potential items w \<le> length ws \<or> pending items (redis w) = [] \<Longrightarrow>
    \<exists>w'. fleet_run env ws w = (Inr (), w') \<and> pending items (redis w') = [] \<and>
      list_all settled (rows (store w'))"
proof (induction ws arbitrary: w)
  case Nil
  then have p: "pending items (redis w) = []" by (auto simp: potential_def)
  with live_idle_settled [OF Nil(2) p] show ?case by (simp add: list_all_iff)
next
  case (Cons x ws)
  obtain we wid where x: "x = (we, wid)" by fastforce
  with Cons.prems(1) have ok: "worker_ok env we wid items" "fleet_ok env ws items"
    by (simp_all add: fleet_ok_def)
  obtain w' where w': "\<And>n. worker_loop env we wid (Suc n) w = worker_loop env we wid n w'"
    "live env items w'" "if pending items (redis w) = [] then pending items (redis w') = []
      else potential items w' < potential items w"
    using live_round [OF ok(1) Cons.prems(2)] by blast
  then have "potential items w' \<le> length ws \<or> pending items (redis w') = []"
    using Cons.prems(3) by (auto split: if_splits)
  from Cons.IH [OF ok(2) w'(2) this] w'(1) [of 0] x show ?case by simp
qed

text \<open>A single worker is a fleet that takes every round.\<close>

lemma drain:
  fixes w :: "(pg, 'q) world"
  assumes ok: "worker_ok env we wid items"
  shows "live env items w \<Longrightarrow> potential items w \<le> n \<or> pending items (redis w) = [] \<Longrightarrow>
    \<exists>w'. worker_loop env we wid n w = (Inr (), w') \<and> pending items (redis w') = [] \<and>
      list_all settled (rows (store w'))"
proof (induction n arbitrary: w)
  case 0
  then have p: "pending items (redis w) = []" by (auto simp: potential_def)
  with live_idle_settled [OF 0(1) p] show ?case by (simp add: list_all_iff)
next
  case (Suc n)
  obtain w' where w': "\<And>n. worker_loop env we wid (Suc n) w = worker_loop env we wid n w'"
    "live env items w'" "if pending items (redis w) = [] then pending items (redis w') = []
      else potential items w' < potential items w"
    using live_round [OF ok Suc.prems(1)] by blast
  then have "potential items w' \<le> n \<or> pending items (redis w') = []"
    using Suc.prems(2) by (auto split: if_splits)
  from Suc.IH [OF w'(2) this] w'(1) show ?case by simp
qed

end
