(* ===== verification/Worker_Props.thy ===== *)
theory Worker_Props
  imports Http_Props Worker_Liveness
begin

text \<open>
  The worker: what one processing of a task does, that a single worker over a healthy
  store settles everything that is queued, the whole way of a task from the request to
  its result, the order of the queue, and the push that can be lost.
\<close>

section \<open>A concrete worker\<close>

text \<open>UUIDs as their 128 bits, which read back; a queue in a function; an automation that
  always fails.\<close>

definition bits_show :: "uuid \<Rightarrow> string" where
  "bits_show u = map (\<lambda>i. if bit u i then CHR ''1'' else CHR ''0'') [0..<128]"

definition bits_read :: "string \<Rightarrow> uuid option" where
  "bits_read s =
     (if length s = 128 then Some (horner_sum of_bool 2 (map (\<lambda>c. c = CHR ''1'') s)) else None)"

lemma bits_read_show [simp]: "bits_read (bits_show u) = Some u"
proof -
  have "map (\<lambda>c. c = CHR ''1'') (bits_show u) = map (bit u) [0..<128]"
    by (simp add: bits_show_def)
  moreover have "take_bit 128 u = u" using take_bit_length_eq [of u] by simp
  ultimately show ?thesis
    by (simp add: bits_read_def horner_sum_bit_eq_take_bit) (simp add: bits_show_def)
qed

definition bits_env :: env where
  "bits_env = demo_env\<lparr>uuid_String := bits_show\<rparr>"

definition demo_brpop :: "string \<Rightarrow> demo_queue \<Rightarrow> (string + string option) \<times> demo_queue" where
  "demo_brpop k q =
     (case rev (q k) of [] \<Rightarrow> (Inr None, q) | v # vs \<Rightarrow> (Inr (Some v), q(k := rev vs)))"

definition demo_failing :: run_result where
  "demo_failing = no_result\<lparr>run_error := Some ''boom''\<rparr>"

definition demo_worker :: "demo_queue redis_client \<Rightarrow> demo_queue worker_env" where
  "demo_worker c = \<lparr>universal = (\<lambda>r. (1, Returns demo_failing)), brpop = demo_brpop, lpush = c,
     uuid_in = bits_read\<rparr>"

lemma demo_brpop_law [simp]: "brpop_law demo_brpop demo_items"
  by (auto simp: brpop_law_def demo_brpop_def demo_items_def split: list.split)

lemma demo_worker_ok: "worker_ok bits_env (demo_worker demo_redis) ''worker-1'' demo_items"
  by (auto simp: worker_ok_def demo_worker_def bits_env_def brpop_up_def demo_brpop_def caught_def
      demo_failing_def pg_text_def intro!: storable_no_result split: list.split)

definition demo_queued :: "table \<Rightarrow> uuid list \<Rightarrow> (pg, demo_queue) world" where
  "demo_queued rs is = (demo_world 5 rs)\<lparr>redis := (\<lambda>_. map bits_show is)\<rparr>"

section \<open>One task\<close>

text \<open>C19: What a worker does with a task it can claim, over a healthy store and an answering
  Redis: the row keeps its place, gets one more attempt and loses its lock; a service
  without an automation is a DEAD_LETTER with the reason; otherwise the result of the
  automation decides: scheduled gives PENDING at the new time, success gives SUCCESS, and
  a failure (thrown or returned) gives DEAD_LETTER with the error and the evidence if the
  attempts are used up and RETRY with the error if not.  The id is pushed again exactly
  for RETRY, and every other row is untouched.\<close>

theorem worker_processes_task:
  fixes w :: "(pg, 'q) world"
  assumes "worker_ok env we wid items" and "healthy (store w)" and "table_ok t (rows (store w))"
    and "r \<in> set (rows (store w))" and "c_status r = PENDING \<or> c_status r = RETRY"
    and "attempts_room r"
  shows "\<exists>now w' r' ys zs. processTask env we wid (uuid_String env (c_id r)) w = (Inr (), w') \<and>
    rows (store w) = ys @ r # zs \<and> rows (store w') = ys @ r' # zs \<and>
    processed we (touch now (claim_row now wid r)) r' \<and>
    pending items (redis w') =
      (if c_status r' = RETRY then [uuid_String env (c_id r)] else []) @ pending items (redis w)"
proof -
  obtain ys zs where rs: "rows (store w) = ys @ r # zs" using split_list assms(4) by metis
  have d: "distinct (map c_id (rows (store w)))" and v: "varchar_ok (c_service r)"
    using assms(3,4) by (simp_all add: table_ok_def list_all_iff row_ok_def)
  have c: "worker_claimable (c_id r) r" using assms(5) by (simp add: worker_claimable_def)
  from processTask_processed [OF assms(1,2) rs d c assms(6) v] rs show ?thesis
    by (fastforce simp: repushed_def)
qed

lemma demo_row_facts:
  "table_ok 5 [demo_row 1]" "c_status (demo_row 1) = PENDING" "attempts_room (demo_row 1)"
  "c_id (demo_row 1) = 1" "c_service (demo_row 1) = ''test''" "c_attempts (demo_row 1) = 0"
  "c_scheduled_for (demo_row 1) = None" "c_max (demo_row 1) = 3"
  by (simp_all add: table_ok_def row_ok_def demo_rows int4_max_def attempts_room_def)

lemma demo_automation: "getAutomation ''test'' = Some TestService" "getAutomation ''universal'' = Some Universal"
  by (simp_all add: getAutomation_def ascii_lower_def Let_def)

theorem worker_processes_task_witness:
  "\<exists>w' r'. processTask bits_env (demo_worker demo_redis) ''worker-1'' (uuid_String bits_env 1)
       (demo_queued [demo_row 1] []) = (Inr (), w') \<and>
     rows (store w') = [r'] \<and> c_status r' = SUCCESS \<and> c_attempts r' = 1"
proof -
  have "healthy (store (demo_queued [demo_row 1] []))" "rows (store (demo_queued [demo_row 1] [])) = [demo_row 1]"
    by (simp_all add: demo_queued_def)
  with worker_processes_task [OF demo_worker_ok, of "demo_queued [demo_row 1] []" 5 "demo_row 1"]
  obtain now w' r' ys zs where "processTask bits_env (demo_worker demo_redis) ''worker-1''
      (uuid_String bits_env 1) (demo_queued [demo_row 1] []) = (Inr (), w')"
    "[demo_row 1] = ys @ demo_row 1 # zs" "rows (store w') = ys @ r' # zs"
    "processed (demo_worker demo_redis) (touch now (claim_row now ''worker-1'' (demo_row 1))) r'"
    by (auto simp: demo_row_facts)
  then show ?thesis
    by (auto simp: Cons_eq_append_conv processed_def handled_defs demo_row_facts demo_automation
        run_automation_def caught_def no_result_def)
qed

section \<open>A retry that is lost\<close>

lemma processTask_lost_push:
  fixes w :: "(pg, 'q) world"
  assumes "uuid_in we (uuid_String env (c_id r)) = Some (c_id r)" and "pg_varchar255 wid = Inr wid"
    and "healthy (store w)" and "table_ok t (rows (store w))" and "r \<in> set (rows (store w))"
    and "c_status r = PENDING \<or> c_status r = RETRY" and "c_attempts r + 1 < c_max r"
    and "getAutomation (c_service r) = Some a"
    and fails: "\<And>now. let res = caught (snd (run_automation we a (claimed_row now wid r))) in
      \<not> scheduled res \<and> \<not> success res \<and> storable_run res"
    and "lpush we TaskQueueKey (uuid_String env (c_id r)) (redis w) = (Some txt, q')"
  obtains w' ys zs r' where
    "processTask env we wid (uuid_String env (c_id r)) w = (Inl (ErrorString txt), w')"
    and "rows (store w) = ys @ r # zs" and "rows (store w') = ys @ r' # zs"
    and "c_id r' = c_id r" and "c_status r' = RETRY" and "redis w' = q'"
proof -
  obtain ys zs where rs: "rows (store w) = ys @ r # zs" using split_list assms(5) by metis
  have d: "distinct (map c_id (rows (store w)))" and v: "c_max r = 3"
    using assms(4,5) by (simp_all add: table_ok_def list_all_iff row_ok_def)
  have c: "worker_claimable (c_id r) r" "attempts_room r"
    using assms(6,7) v by (simp_all add: worker_claimable_def attempts_room_def int4_max_def)
  obtain now w2 r2 where w2: "processTask env we wid (uuid_String env (c_id r)) w =
      handle_result env we wid (uuid_String env (c_id r)) (claimed_row now wid r)
        (caught (snd (run_automation we a (claimed_row now wid r)))) w2" "healthy (store w2)"
    "rows (store w2) = ys @ r2 # zs" "held_as wid (claimed_row now wid r) r2" "redis w2 = redis w"
    "distinct (map c_id (rows (store w2)))"
    using processTask_run [where env = env, OF assms(1-3) rs d c assms(8)] .
  define res where "res = caught (snd (run_automation we a (claimed_row now wid r)))"
  have f: "\<not> scheduled res" "\<not> success res" "storable_run res"
    using fails [of now] by (simp_all add: res_def Let_def)
  have id1: "uuid_in we (uuid_String env (c_id r)) = Some (c_id (claimed_row now wid r))"
    using assms(1) by simp
  have "worker_updateTaskRetry (c_id (claimed_row now wid r)) wid (run_error res) now' rs' =
      hit (sql_update now' (owned (c_id (claimed_row now wid r)) wid) (\<lambda>_. True) (retry_row (run_error res)) rs')"
    for now' rs'
    using f(3) by (simp add: worker_updateTaskRetry_def storable_run_def)
  from owner_write [where stmt = "\<lambda>i. worker_updateTaskRetry i wid (run_error res)" and env = env,
      OF id1 w2(2,3,4,6) this]
  obtain now' w3 where w3: "pool_query env (with_id we (uuid_String env (c_id r))
      (\<lambda>i. worker_updateTaskRetry i wid (run_error res))) w2 = (Inr True, w3)"
    "rows (store w3) = ys @ touch now' (retry_row (run_error res) r2) # zs" "redis w3 = redis w2" by blast
  show thesis
    by (rule that [of "w3\<lparr>redis := q'\<rparr>" ys zs "touch now' (retry_row (run_error res) r2)"])
      (use w2 w3 f assms(7,10) rs in \<open>simp_all add: handle_result_def held_as_def flip: res_def,
        simp_all add: row_transformers\<close>)
qed

lemma healthy_others: "healthy s \<Longrightarrow> others_satisfy A s"
  by (simp add: healthy_def others_satisfy_def)

lemma processTask_future:
  "processTask env we wid tid w = (res, w') \<Longrightarrow> future (store w') = future (store w)"
  using processTask_runs [of wid "\<lambda>_. True" env w we tid] by (simp add: pg_runs_def)

text \<open>C26: A retry can be lost.  If the push after a failed attempt does not reach the list, the
  error is not caught: the processing (and with it the worker) ends with it, the row stays
  in RETRY, and no pass of the requeuer or the scheduler ever pushes the id again, in any
  interleaving: the task waits until a client replays its creation.\<close>

theorem lost_retry_is_never_repaired:
  fixes w :: "(pg, 'q) world"
  assumes "uuid_in we (uuid_String env (c_id r)) = Some (c_id r)" and "pg_varchar255 wid = Inr wid"
    and "healthy (store w)" and "table_ok (clock (store w)) (rows (store w))"
    and "r \<in> set (rows (store w))" and "c_status r = PENDING \<or> c_status r = RETRY"
    and "c_attempts r + 1 < c_max r" and "getAutomation (c_service r) = Some a"
    and "\<And>now. let res = caught (snd (run_automation we a (touch now (claim_row now wid r)))) in
      \<not> scheduled res \<and> \<not> success res \<and> storable_run res"
    and "lpush we TaskQueueKey (uuid_String env (c_id r)) (redis w) = (Some txt, q')"
    and "pending items q' = pending items (redis w)"
    and "lpush_law c items" and "unique_text env (c_id r)"
  shows "\<exists>w' r'. processTask env we wid (uuid_String env (c_id r)) w = (Inl (ErrorString txt), w') \<and>
    c_id r' = c_id r \<and> c_status r' = RETRY \<and>
    (\<forall>passes. let w'' = background env (NewRequeuer (NewPostgresTaskRepo env) c)
        (NewScheduler (NewPostgresTaskRepo env) c) passes w' in
      r' \<in> set (rows (store w'')) \<and>
      entries env items (c_id r) (redis w'') = entries env items (c_id r) (redis w))"
proof -
  obtain w' ys zs r' where
    p: "processTask env we wid (uuid_String env (c_id r)) w = (Inl (ErrorString txt), w')"
    and r': "rows (store w') = ys @ r' # zs" "c_id r' = c_id r" "c_status r' = RETRY" "redis w' = q'"
    using processTask_lost_push [where env = env, OF assms(1-10)] by metis
  have "healthy (store w')" using assms(3) processTask_future [OF p] by (simp add: healthy_def)
  then have "orphaned r' (store w')"
    using processTask_table_ok [OF assms(4) p] r' healthy_others
    by (simp add: orphaned_def needs_worker_def)
  from background_orphan [OF assms(12) _ this, of env] assms(13) r' assms(11)
  have "r' \<in> set (rows (store w'')) \<and>
      entries env items (c_id r) (redis w'') = entries env items (c_id r) (redis w)"
    if "w'' = background env (NewRequeuer (NewPostgresTaskRepo env) c)
        (NewScheduler (NewPostgresTaskRepo env) c) passes w'" for w'' passes
    unfolding that by (simp add: orphaned_def entries_def)
  with p r' show ?thesis by (simp add: Let_def) blast
qed

definition demo_universal :: task_row where
  "demo_universal = default_row 0 1 1 ''universal'' ''user@example.com'' None None"

lemma demo_universal_facts:
  "table_ok 5 [demo_universal]" "c_status demo_universal = PENDING" "c_attempts demo_universal = 0"
  "c_id demo_universal = 1" "c_service demo_universal = ''universal''"
  "c_scheduled_for demo_universal = None" "c_max demo_universal = 3"
  by (simp_all add: demo_universal_def table_ok_def row_ok_def default_row_def int4_max_def
      varchar_ok_def runes_def is_cont_def)

lemma bits_env_String [simp]: "uuid_String bits_env = bits_show"
  by (simp add: bits_env_def)

lemma demo_unique: "unique_text bits_env i"
proof -
  have "j = i" if "bits_show j = bits_show i" for j
    using arg_cong [OF that, of bits_read] by simp
  then show ?thesis by (simp add: unique_text_def)
qed

theorem lost_retry_is_never_repaired_witness:
  "\<exists>w' r'. processTask bits_env (demo_worker demo_redis_down) ''worker-1'' (uuid_String bits_env 1)
      (demo_queued [demo_universal] []) = (Inl (ErrorString ''connection refused''), w') \<and>
     c_status r' = RETRY \<and> r' \<in> set (rows (store (background bits_env
       (NewRequeuer (NewPostgresTaskRepo bits_env) demo_redis)
       (NewScheduler (NewPostgresTaskRepo bits_env) demo_redis) [True, False] w')))"
proof -
  let ?w = "demo_queued [demo_universal] []"
  have w: "store ?w = demo_pg 5 [demo_universal]" by (simp add: demo_queued_def)
  have "storable_run demo_failing" by (simp add: demo_failing_def storable_no_result pg_text_def)
  then have run: "let res = caught (snd (run_automation (demo_worker demo_redis_down) Universal r)) in
      \<not> scheduled res \<and> \<not> success res \<and> storable_run res" for r
    by (simp add: run_automation_def demo_worker_def caught_def) (simp add: demo_failing_def no_result_def)
  have id: "uuid_in (demo_worker demo_redis_down) (uuid_String bits_env (c_id demo_universal)) =
      Some (c_id demo_universal)"
    by (simp add: demo_worker_def bits_env_def)
  have down: "lpush (demo_worker demo_redis_down) TaskQueueKey (uuid_String bits_env (c_id demo_universal))
      (redis ?w) = (Some ''connection refused'', redis ?w)"
    by (simp add: demo_worker_def demo_redis_down_def)
  have auto: "getAutomation (c_service demo_universal) = Some Universal"
    by (simp add: demo_universal_facts demo_automation)
  from lost_retry_is_never_repaired [where wid = "''worker-1''", OF id _ _ _ _ _ _ auto run down refl demo_redis_law demo_unique]
  obtain w' r' where "processTask bits_env (demo_worker demo_redis_down) ''worker-1''
      (uuid_String bits_env (c_id demo_universal)) ?w = (Inl (ErrorString ''connection refused''), w')"
    "c_status r' = RETRY" "\<forall>passes. r' \<in> set (rows (store (background bits_env
       (NewRequeuer (NewPostgresTaskRepo bits_env) demo_redis)
       (NewScheduler (NewPostgresTaskRepo bits_env) demo_redis) passes w')))"
    by (auto simp: w demo_universal_facts Let_def)
  then show ?thesis unfolding demo_universal_facts by blast
qed

section \<open>The queue\<close>

text \<open>The list as its two users see it: the server pushes ids, a worker pops entries.\<close>

datatype queue_op = Push uuid | Pop

fun redis_run ::
  "env \<Rightarrow> 'q redis_client \<Rightarrow> (string \<Rightarrow> 'q \<Rightarrow> (string + string option) \<times> 'q) \<Rightarrow> queue_op list \<Rightarrow> 'q \<Rightarrow>
   (string + string option) list \<times> 'q" where
  "redis_run env c b [] q = ([], q)"
| "redis_run env c b (Push i # ops) q = redis_run env c b ops (snd (Enqueue env (NewProducer c) i q))"
| "redis_run env c b (Pop # ops) q =
     (case b TaskQueueKey q of (res, q') \<Rightarrow>
        (case redis_run env c b ops q' of (out, q'') \<Rightarrow> (res # out, q'')))"

text \<open>The specification: a first-in first-out queue.\<close>

fun fifo_run ::
  "env \<Rightarrow> queue_op list \<Rightarrow> string list \<Rightarrow> (string + string option) list \<times> string list" where
  "fifo_run env [] vs = ([], vs)"
| "fifo_run env (Push i # ops) vs = fifo_run env ops (vs @ [uuid_String env i])"
| "fifo_run env (Pop # ops) [] = (case fifo_run env ops [] of (out, vs') \<Rightarrow> (Inr None # out, vs'))"
| "fifo_run env (Pop # ops) (v # vs) =
     (case fifo_run env ops vs of (out, vs') \<Rightarrow> (Inr (Some v) # out, vs'))"



section \<open>Progress\<close>

lemma worker_loop_keeps:
  fixes w :: "(pg, 'q) world"
  assumes "worker_loop env we wid n w = (res, w')" and "healthy (store w)"
  shows "evolves (rows (store w)) (rows (store w'))"
    and "list_all P (rows (store w)) \<Longrightarrow> (\<And>t i k sv e p at. P (default_row t i k sv e p at)) \<Longrightarrow>
      (\<And>t a r r'. no_set_status a \<Longrightarrow> P r \<Longrightarrow> row_update t a r r' \<Longrightarrow> P r') \<Longrightarrow>
      list_all P (rows (store w'))"
proof -
  have run: "pg_runs env (worker_action wid) (store w) (store w')"
    using worker_loop_runs [of wid "worker_action wid" env w we n] assms(1) by simp
  have steps: "db_steps (jsonb_in env) (worker_action wid) (clock (store w), rows (store w))
      (clock (store w'), rows (store w'))"
    using run healthy_others [OF assms(2)] by (simp add: pg_runs_def)
  show "evolves (rows (store w)) (rows (store w'))"
    using db_steps_evolves [OF steps] by simp
  show "list_all P (rows (store w')) " if "list_all P (rows (store w))"
    "\<And>t i k sv e p at. P (default_row t i k sv e p at)"
    "\<And>t a r r'. no_set_status a \<Longrightarrow> P r \<Longrightarrow> row_update t a r r' \<Longrightarrow> P r'"
    by (rule db_steps_rows [OF steps, of P, simplified snd_conv]) (use that in \<open>blast dest: worker_fenced\<close>)+
qed

lemma worker_loop_healthy:
  assumes "worker_loop env we wid n w = (res, w')" and "healthy (store w)"
  shows "healthy (store w')"
  using worker_loop_runs [of wid "\<lambda>_. True" env w we n] assms by (simp add: pg_runs_def healthy_def)

lemma fleet_run_evolves:
  "fleet_run env ws w = (res, w') \<Longrightarrow> healthy (store w) \<Longrightarrow> evolves (rows (store w)) (rows (store w'))"
proof (induction env ws w rule: fleet_run.induct)
  case (1 env w)
  then show ?case by auto
next
  case (2 env we wid ws w)
  obtain r w1 where r: "worker_loop env we wid 1 w = (r, w1)" by fastforce
  note first = worker_loop_keeps(1) [OF r "2.prems"(2)]
  show ?case
  proof (cases r)
    case (Inl e)
    with r "2.prems"(1) first show ?thesis by simp
  next
    case (Inr u)
    have run: "fleet_run env ws w1 = (res, w')" using r Inr "2.prems"(1) by simp
    from "2.IH" [OF r [symmetric] Inr run worker_loop_healthy [OF r "2.prems"(2)]]
    show ?thesis by (rule evolves_trans [OF first])
  qed
qed

text \<open>The workers settle everything that is queued.  Over a healthy store and an answering
  Redis, when nothing is running and every task that needs a worker has an entry, any
  number of workers that together take at least as many rounds of their loops, in any
  order, as there are entries and attempts left return without an error, leave the list
  empty, and leave every task finished or scheduled for a later time; no task is lost.
  (Whatever their automations do: they may fail or throw, and differ between workers.)\<close>

lemma workers_drain_queue:
  fixes w :: "(pg, 'q) world"
  assumes "fleet_ok env ws items" and "live env items w" and "potential items w \<le> length ws"
  shows "\<exists>w'. fleet_run env ws w = (Inr (), w') \<and> pending items (redis w') = [] \<and>
    list_all settled (rows (store w')) \<and>
    (\<forall>r\<in>set (rows (store w)). \<exists>r'\<in>set (rows (store w')). same_task r r')"
proof -
  obtain w' where w': "fleet_run env ws w = (Inr (), w')" "pending items (redis w') = []"
    "list_all settled (rows (store w'))"
    using fleet_settles [OF assms(1,2)] assms(3) by blast
  have "healthy (store w)" using assms(2) by (simp add: live_def)
  from fleet_run_evolves [OF w'(1) this] w' show ?thesis by (auto elim: evolvesE)
qed

lemma demo_live: "live bits_env demo_items (demo_queued [demo_universal] [1])"
  by (auto simp: live_def demo_queued_def demo_universal_facts potential_def pending_def
      demo_items_def tries_left_def int4_max_def intro: exI [of _ "[1]"])

section \<open>From the request to the result\<close>

text \<open>A posted task joins the work: the state is live again, with room for its three attempts.\<close>

lemma live_post:
  assumes l: "live env items g"
    and room: "list_all (\<lambda>a. a + int (potential items g) + 4 \<le> int4_max) (0 # map c_attempts (rows (store g)))"
    and s: "store g' = (store g)\<lparr>clock := t, calls := n, rows := rows (store g) @ [d]\<rparr>"
    and d: "d = default_row t' i k svc em p None"
    and q: "pending items (redis g') = uuid_String env i # pending items (redis g)"
    and ok: "table_ok (clock (store g')) (rows (store g'))"
  shows "live env items g'" and "potential items g' = potential items g + 4"
proof -
  have h: "healthy (store g')" using l s by (simp add: live_def healthy_def)
  have dd: "c_id d = i" "c_attempts d = 0" "c_max d = 3" "c_status d = PENDING"
    using d by (simp_all add: default_row_def)
  show pot: "potential items g' = potential items g + 4"
    using s q dd by (simp add: potential_def tries_left_def)
  obtain js where "pending items (redis g) = map (uuid_String env) js"
    "list_all (\<lambda>r. needs_worker r \<longrightarrow> c_id r \<in> set js) (rows (store g))"
    using l by (auto simp: live_def)
  with q s dd have "pending items (redis g') = map (uuid_String env) (i # js) \<and>
      list_all (\<lambda>r. needs_worker r \<longrightarrow> c_id r \<in> set (i # js)) (rows (store g'))"
    by (auto simp: list_all_iff)
  moreover have "list_all (\<lambda>r. c_status r \<noteq> IN_PROGRESS \<and> c_attempts r + int (potential items g') \<le> int4_max)
      (rows (store g'))"
    using l room s dd pot by (auto simp: live_def list_all_iff)
  ultimately show "live env items g'" using h ok unfolding live_def by blast
qed

text \<open>C8: The whole way of a task.  Over a healthy store and an answering Redis, in a state
  where nothing is running and everything that needs a worker is queued, \<^verbatim>\<open>POST /tasks\<close> with
  a new key and no scheduled time is answered 201, and a worker that runs the known number
  of rounds afterwards returns without an error and leaves the new task in SUCCESS,
  in DEAD_LETTER or scheduled by its automation for a later time, with the request's key
  and service, together with every other task that was waiting.\<close>

theorem posted_task_completes:
  fixes g :: "(pg, 'q) world"
  assumes "worker_ok env we wid items" and "live env items g"
    and "list_all (\<lambda>a. a + int (potential items g) + 4 \<le> int4_max) (0 # map c_attempts (rows (store g)))"
    and "json_Decode env (r_body r) = Inr req" and "storable env req key svc email p"
    and "req_ScheduledFor req = None" and "key \<notin> c_key ` set (rows (store g))"
    and "newid = m_uuid (future (store g) (calls (store g)))" and "newid \<notin> c_id ` set (rows (store g))"
    and "potential items g + 4 \<le> n"
  shows "\<exists>w' g' g''. Handler_CreateTask env
        (NewTaskHandler (NewPostgresTaskRepo env) (NewProducer (lpush we))) now r (new_writer, g) = (w', g') \<and>
      final_status w' = 201 \<and> worker_loop env we wid n g' = (Inr (), g'') \<and>
      list_all settled (rows (store g'')) \<and>
      (\<exists>x\<in>set (rows (store g'')). c_id x = newid \<and> c_key x = key \<and> c_service x = svc \<and>
         (c_status x \<in> {SUCCESS, DEAD_LETTER} \<or> (c_status x = PENDING \<and> c_scheduled_for x \<noteq> None)))"
proof -
  have up: "redis_up (lpush we)" "lpush_law (lpush we) items" and h: "healthy (store g)"
    and ok: "table_ok (clock (store g)) (rows (store g))"
    using assms(1,2) by (simp_all add: worker_ok_def live_def)
  have unscheduled: "\<not> is_scheduled_future now (scan_task (default_row t newid key svc email p None))" for t
    by (simp add: is_scheduled_future_def scan_task_def)
  obtain t w' g' where post: "Handler_CreateTask env
      (NewTaskHandler (NewPostgresTaskRepo env) (NewProducer (lpush we))) now r (new_writer, g) = (w', g')"
    "final_status w' = 201"
    and s: "store g' = (store g)\<lparr>clock := t, calls := Suc (calls (store g)),
        rows := rows (store g) @ [default_row t newid key svc email p None]\<rparr>"
    and q: "pending items (redis g') = uuid_String env newid # pending items (redis g)"
    by (rule Handler_CreateTask_new [where now = now, OF h up assms(4,5,7,8,9), unfolded assms(6)])
      (rule that, assumption+, simp add: unscheduled)
  have ok': "table_ok (clock (store g')) (rows (store g'))"
    using create_handler_runs [OF post(1)] healthy_others [OF h] db_steps_table_ok ok
    by (fastforce simp: pg_runs_def)
  note l = live_post [OF assms(2,3) s refl q ok']
  obtain g'' where g'': "worker_loop env we wid n g' = (Inr (), g'')"
    "list_all settled (rows (store g''))"
    using drain [OF assms(1) l(1), of n] l(2) assms(10) by auto
  note keeps = worker_loop_keeps [OF g''(1)]
  have h': "healthy (store g')" using l(1) by (simp add: live_def)
  let ?d = "default_row t newid key svc email p None"
  have "?d \<in> set (rows (store g'))" using s by simp
  then obtain x where x: "x \<in> set (rows (store g''))" "same_task ?d x"
    using keeps(1) [OF h'] by (auto elim: evolvesE)
  have "list_all (\<lambda>r. c_id r = newid \<longrightarrow> c_status r \<noteq> FAILED) (rows (store g''))"
    by (rule keeps(2) [OF h'])
      (use s assms(9) in \<open>auto simp: list_all_iff default_row_def dest: row_update_not_failed
        row_update_same_task simp: same_task_def\<close>)
  with x g''(2) have "c_id x = newid" "c_key x = key" "c_service x = svc" "settled x" "c_status x \<noteq> FAILED"
    by (auto simp: same_task_def list_all_iff default_row_def)
  with x post g'' show ?thesis by (fastforce simp: settled_def)
qed

lemma bits_env_fields [simp]: "uuid_Parse bits_env = uuid_Parse demo_env"
  "json_Decode bits_env = json_Decode demo_env" "json_Marshal bits_env = json_Marshal demo_env"
  "jsonb_in bits_env = jsonb_in demo_env" "interval_in bits_env = interval_in demo_env"
  by (simp_all add: bits_env_def)

theorem posted_task_completes_witness:
  "\<exists>w' g' g''. Handler_CreateTask bits_env (NewTaskHandler (NewPostgresTaskRepo bits_env)
        (NewProducer (lpush (demo_worker demo_redis)))) 0 demo_post (new_writer, demo_queued [] []) = (w', g') \<and>
      final_status w' = 201 \<and>
      worker_loop bits_env (demo_worker demo_redis) ''worker-1'' 4 g' = (Inr (), g'') \<and>
      list_all settled (rows (store g''))"
proof -
  let ?g = "demo_queued [] []"
  have p: "potential demo_items ?g = 0" and g: "store ?g = demo_pg 5 []"
    by (simp_all add: potential_def pending_def demo_items_def demo_queued_def)
  have live: "live bits_env demo_items ?g"
    by (simp add: live_def g table_ok_def) (simp add: pending_def demo_items_def demo_queued_def)
  have st: "storable bits_env demo_req 1 ''test'' ''user@example.com'' None"
    using demo_storable unfolding storable_def marshal_payload_def bits_env_fields .
  have dec: "json_Decode bits_env (r_body demo_post) = Inr demo_req" using demo_decode by simp
  from posted_task_completes [OF demo_worker_ok live _ dec st, of 1 4 0]
  show ?thesis by (simp add: p g int4_max_def demo_req_def) blast
qed

end
