(* ===== verification/Crash_Props.thy ===== *)
theory Crash_Props
  imports Worker_Props
begin

text \<open>
  Recovery from crashed workers as a whole: the requeuer's pass brings the system back to a
  state in which the queue accounts for all the work, and a worker settles it.
\<close>

section \<open>The state after a crash\<close>

text \<open>
  Workers are gone: what is IN_PROGRESS has had no heartbeat for 30 seconds; what waits is
  queued, and the attempts column has room.
\<close>

definition crashed :: "env \<Rightarrow> ('q \<Rightarrow> string \<Rightarrow> string list) \<Rightarrow> (pg, 'q) world \<Rightarrow> bool" where
  "crashed env items w \<longleftrightarrow>
     healthy (store w) \<and> table_ok (clock (store w)) (rows (store w)) \<and>
     (\<exists>is. pending items (redis w) = map (uuid_String env) is \<and>
        list_all (\<lambda>r. needs_worker r \<longrightarrow> c_id r \<in> set is) (rows (store w))) \<and>
     list_all (\<lambda>r. (c_status r = IN_PROGRESS \<longrightarrow> is_stale 30000000 (clock (store w)) r) \<and>
        c_attempts r + int (potential items w + length (rows (store w))) \<le> int4_max)
       (rows (store w))"

lemma released_tries [simp]: "map tries_left (released I T rs) = map tries_left rs"
  by (simp add: released_def tries_left_def row_transformers)

lemma released_row_cases:
  assumes "r' \<in> set (released I T rs)"
  obtains r where "r \<in> set rs" "c_id r \<in> I" "r' = touch (T (c_id r)) (release_row r)"
  | "r' \<in> set rs" "c_id r' \<notin> I"
  using assms by (auto simp: released_def split: if_splits)

lemma Requeuer_store:
  fixes c :: "'q redis_client" and w :: "(pg, 'q) world" and env :: env
  assumes "healthy (store w)" and "table_ok (clock (store w)) (rows (store w))"
  defines "w' \<equiv> Requeuer_runOnce env (NewRequeuer (NewPostgresTaskRepo env) c) w"
  shows "healthy (store w')" and "table_ok (clock (store w')) (rows (store w'))"
    and "evolves (rows (store w)) (rows (store w'))"
proof -
  have run: "pg_runs env no_set_status (store w) (store w')"
    unfolding w'_def by (rule pg_repo.Requeuer_reaches) (simp add: NewRequeuer_def)
  then have steps: "db_steps (jsonb_in env) no_set_status (clock (store w), rows (store w))
      (clock (store w'), rows (store w'))"
    using healthy_others [OF assms(1)] by (simp add: pg_runs_def)
  show "healthy (store w')" using run assms(1) by (simp add: pg_runs_def healthy_def)
  show "table_ok (clock (store w')) (rows (store w'))" using db_steps_table_ok [OF steps] assms(2) by simp
  show "evolves (rows (store w)) (rows (store w'))" using db_steps_evolves [OF steps] by simp
qed

text \<open>One pass of the requeuer turns it into a state without running tasks whose work is
  queued.\<close>

lemma requeuer_makes_live:
  fixes w :: "(pg, 'q) world" and env :: env and c :: "'q redis_client"
  assumes cr: "crashed env items w" and env: "interval_30s env" "redis_up c" "lpush_law c items"
  defines "w' \<equiv> Requeuer_runOnce env (NewRequeuer (NewPostgresTaskRepo env) c) w"
  shows "live env items w'" and "potential items w' \<le> potential items w + length (rows (store w))"
proof -
  have h: "healthy (store w)" and ok: "table_ok (clock (store w)) (rows (store w))"
    using cr by (simp_all add: crashed_def)
  have d: "distinct (map c_id (rows (store w)))" using ok by (simp add: table_ok_def)
  obtain now T ids where now: "clock (store w) \<le> now" and "distinct ids"
    and ids: "set ids = c_id ` {r \<in> set (rows (store w)). is_stale 30000000 now r}"
    and rs: "rows (store w') = released (set ids) T (rows (store w))"
    and q: "pending items (redis w') = rev (map (uuid_String env) ids) @ pending items (redis w)"
    unfolding w'_def by (rule Requeuer_healthy [OF h env d])
  have "set ids \<subseteq> set (map c_id (rows (store w)))" using ids by auto
  then have "length ids \<le> length (rows (store w))"
    using \<open>distinct ids\<close> by (metis card_mono distinct_card finite_set card_length length_map le_trans)
  then show pot: "potential items w' \<le> potential items w + length (rows (store w))"
    using q rs by (simp add: potential_def)
  obtain js where js: "pending items (redis w) = map (uuid_String env) js"
    "\<And>r. r \<in> set (rows (store w)) \<Longrightarrow> needs_worker r \<Longrightarrow> c_id r \<in> set js"
    using cr by (auto simp: crashed_def list_all_iff)
  have queued: "c_id r \<in> set (rev ids @ js)" if "r \<in> set (rows (store w'))" "needs_worker r" for r
    using that(1) unfolding rs
    by (cases rule: released_row_cases) (use js(2) that(2) in auto)
  have idle: "c_status r \<noteq> IN_PROGRESS \<and> c_attempts r + int (potential items w') \<le> int4_max"
    if "r \<in> set (rows (store w'))" for r
    using that unfolding rs
  proof (cases rule: released_row_cases)
    case (1 x)
    then have "c_attempts x + int (potential items w + length (rows (store w))) \<le> int4_max"
      using cr by (simp add: crashed_def list_all_iff)
    with 1(3) pot show ?thesis by (simp add: row_transformers)
  next
    case 2
    then have "c_status r = IN_PROGRESS \<longrightarrow> is_stale 30000000 now r"
      "c_attempts r + int (potential items w + length (rows (store w))) \<le> int4_max"
      using cr is_stale_later [OF _ now] by (auto simp: crashed_def list_all_iff)
    with 2 ids pot show ?thesis by auto
  qed
  have "pending items (redis w') = map (uuid_String env) (rev ids @ js)"
    using q js(1) by (simp add: rev_map)
  with queued idle Requeuer_store(1,2) [OF h ok, of env c]
  show "live env items w'" unfolding live_def list_all_iff w'_def by blast
qed

section \<open>The property\<close>

text \<open>C17: Crashed workers cost no task.  Over a healthy store and an answering Redis, in a state
  where every running task has had no heartbeat for 30 seconds (its worker crashed) and
  every waiting task is queued, one pass of the requeuer followed by a worker that runs the
  known number of rounds leaves the list empty and every task finished or scheduled for a
  later time, with its identity and inputs.\<close>

theorem crashed_tasks_complete:
  fixes w :: "(pg, 'q) world"
  assumes "worker_ok env we wid items" and "interval_30s env" and "crashed env items w"
    and "potential items w + length (rows (store w)) \<le> n"
  shows "\<exists>w''. worker_loop env we wid n
        (Requeuer_runOnce env (NewRequeuer (NewPostgresTaskRepo env) (lpush we)) w) = (Inr (), w'') \<and>
      pending items (redis w'') = [] \<and> list_all settled (rows (store w'')) \<and>
      (\<forall>r\<in>set (rows (store w)). \<exists>r'\<in>set (rows (store w'')). same_task r r')"
proof -
  let ?w' = "Requeuer_runOnce env (NewRequeuer (NewPostgresTaskRepo env) (lpush we)) w"
  have up: "redis_up (lpush we)" "lpush_law (lpush we) items" using assms(1) by (simp_all add: worker_ok_def)
  note l = requeuer_makes_live [OF assms(3,2) up]
  obtain w'' where w'': "worker_loop env we wid n ?w' = (Inr (), w'')" "pending items (redis w'') = []"
    "list_all settled (rows (store w''))"
    using drain [OF assms(1) l(1), of n] l(2) assms(4) by auto
  have h: "healthy (store w)" and ok: "table_ok (clock (store w)) (rows (store w))"
    using assms(3) by (simp_all add: crashed_def)
  have "evolves (rows (store w)) (rows (store w''))"
    by (rule evolves_trans [OF Requeuer_store(3) [OF h ok] worker_loop_keeps(1) [OF w''(1)]])
      (use l(1) in \<open>simp add: live_def\<close>)
  with w'' show ?thesis by (auto elim: evolvesE)
qed

definition demo_crashed :: "(pg, demo_queue) world" where
  "demo_crashed = (demo_world 40000000 [touch 5 (claim_row 5 ''worker-1'' demo_universal)])"

theorem crashed_tasks_complete_witness:
  "\<exists>w''. worker_loop bits_env (demo_worker demo_redis) ''worker-2'' 3
      (Requeuer_runOnce bits_env (NewRequeuer (NewPostgresTaskRepo bits_env) demo_redis) demo_crashed) =
        (Inr (), w'') \<and> list_all settled (rows (store w''))"
proof -
  let ?r = "touch 5 (claim_row 5 ''worker-1'' demo_universal)"
  have ok: "worker_ok bits_env (demo_worker demo_redis) ''worker-2'' demo_items"
    using demo_worker_ok by (simp add: worker_ok_def)
  have rs: "rows (store demo_crashed) = [?r]" "clock (store demo_crashed) = 40000000"
    "pending demo_items (redis demo_crashed) = []"
    by (simp_all add: demo_crashed_def demo_world_def pending_def demo_items_def)
  have p: "potential demo_items demo_crashed = 2"
    using rs by (simp add: potential_def tries_left_def row_transformers demo_universal_facts)
  have "table_ok 40000000 [?r]" "is_stale 30000000 40000000 ?r" "\<not> needs_worker ?r"
    by (simp_all add: table_ok_def row_ok_def is_stale_def needs_worker_def row_transformers
        demo_universal_def default_row_def int4_max_def varchar_ok_def runes_def is_cont_def)
  then have "crashed bits_env demo_items demo_crashed"
    unfolding crashed_def rs p by (simp add: demo_crashed_def row_transformers demo_universal_facts int4_max_def)
  moreover have "interval_30s bits_env" by (simp add: interval_30s_def demo_env_def)
  ultimately show ?thesis
    using crashed_tasks_complete [OF ok, of demo_crashed 3] rs p by (auto simp: demo_worker_def)
qed

end
