(* ===== verification/Process.thy ===== *)
theory Process
  imports Server
begin

text \<open>
  The server's process as its goroutines interleave: \<^verbatim>\<open>main\<close>, the listener it starts, the
  requests in flight, and the two loops that \<^verbatim>\<open>server.New\<close> starts.  A step is one action of
  one goroutine; the process ends with \<^verbatim>\<open>os.Exit\<close> or when \<^verbatim>\<open>main\<close> returns, and every
  goroutine with it.
\<close>

section \<open>State\<close>

text \<open>Where \<^verbatim>\<open>main\<close> is: at a connection attempt, at the wait for a signal, before and inside
  \<^verbatim>\<open>srv.Shutdown\<close>, and at the deferred calls.\<close>

datatype main_pc =
    AtDatabase
  | AtRedis
  | AtSignal
  | AtShutdown
  | InShutdown
  | AtCloseRedis
  | AtClosePool
  | AtReturn

text \<open>A loop waits in its \<^verbatim>\<open>select\<close>, is inside \<^verbatim>\<open>runOnce\<close>, or has returned.\<close>

datatype loop_state = NotStarted | Waiting_select | In_runOnce | Returned

record process =
  pc :: main_pc
  exit_code :: "nat option"
  cancelled :: bool
  pool_open :: bool
  redis_open :: bool
  listening :: bool
  requests :: nat
  forced :: bool
  requeue_loop :: loop_state
  schedule_loop :: loop_state

definition process_start :: process where
  "process_start = \<lparr>pc = AtDatabase, exit_code = None, cancelled = False, pool_open = False,
     redis_open = False, listening = False, requests = 0, forced = False,
     requeue_loop = NotStarted, schedule_loop = NotStarted\<rparr>"

section \<open>Steps of a loop\<close>

text \<open>
  The loops of \<^verbatim>\<open>internal/queue\<close>: when the ticker has fired and the context is cancelled,
  \<^verbatim>\<open>select\<close> may take either, so a pass can start after the cancellation.
\<close>

text \<open>\<^verbatim>\<open>Start\<close> returns at once and leaves a goroutine: the requeuer waits for its first tick, the
  scheduler makes a pass first.\<close>

definition Requeuer_Start :: loop_state where "Requeuer_Start = Waiting_select"
definition Scheduler_Start :: loop_state where "Scheduler_Start = In_runOnce"

inductive loop_step :: "bool \<Rightarrow> loop_state \<Rightarrow> loop_state \<Rightarrow> bool" for ctx_done :: bool where
  tick: "loop_step ctx_done Waiting_select In_runOnce"
| pass_ends: "loop_step ctx_done In_runOnce Waiting_select"
| context_done: "ctx_done \<Longrightarrow> loop_step ctx_done Waiting_select Returned"

lemmas start_defs [simp] = Requeuer_Start_def Scheduler_Start_def

section \<open>Steps of the process\<close>

inductive process_step :: "process \<Rightarrow> process \<Rightarrow> bool" where
  database_fails: "exit_code p = None \<Longrightarrow> pc p = AtDatabase \<Longrightarrow>
    process_step p (p\<lparr>exit_code := Some 1\<rparr>)"
| database_up: "exit_code p = None \<Longrightarrow> pc p = AtDatabase \<Longrightarrow>
    process_step p (p\<lparr>pc := AtRedis, pool_open := True\<rparr>)"
| redis_fails: "exit_code p = None \<Longrightarrow> pc p = AtRedis \<Longrightarrow>
    process_step p (p\<lparr>exit_code := Some 1\<rparr>)"
| serve: "exit_code p = None \<Longrightarrow> pc p = AtRedis \<Longrightarrow>
    process_step p (p\<lparr>pc := AtSignal, redis_open := True, listening := True,
      requeue_loop := Requeuer_Start, schedule_loop := Scheduler_Start\<rparr>)"
| listener_fails: "exit_code p = None \<Longrightarrow> listening p \<Longrightarrow>
    process_step p (p\<lparr>listening := False, exit_code := Some 1\<rparr>)"
| request_begins: "exit_code p = None \<Longrightarrow> listening p \<Longrightarrow>
    process_step p (p\<lparr>requests := Suc (requests p)\<rparr>)"
| request_ends: "exit_code p = None \<Longrightarrow> requests p = Suc n \<Longrightarrow>
    process_step p (p\<lparr>requests := n\<rparr>)"
| requeuer: "exit_code p = None \<Longrightarrow> loop_step (cancelled p) (requeue_loop p) l \<Longrightarrow>
    process_step p (p\<lparr>requeue_loop := l\<rparr>)"
| scheduler: "exit_code p = None \<Longrightarrow> loop_step (cancelled p) (schedule_loop p) l \<Longrightarrow>
    process_step p (p\<lparr>schedule_loop := l\<rparr>)"
| signal: "exit_code p = None \<Longrightarrow> pc p = AtSignal \<Longrightarrow>
    process_step p (p\<lparr>pc := AtShutdown, cancelled := True\<rparr>)"
| shutdown_begins: "exit_code p = None \<Longrightarrow> pc p = AtShutdown \<Longrightarrow>
    process_step p (p\<lparr>pc := InShutdown, listening := False\<rparr>)"
| shutdown_done: "exit_code p = None \<Longrightarrow> pc p = InShutdown \<Longrightarrow> requests p = 0 \<Longrightarrow>
    process_step p (p\<lparr>pc := AtCloseRedis\<rparr>)"
| shutdown_forced: "exit_code p = None \<Longrightarrow> pc p = InShutdown \<Longrightarrow>
    process_step p (p\<lparr>pc := AtCloseRedis, forced := True\<rparr>)"
| close_redis: "exit_code p = None \<Longrightarrow> pc p = AtCloseRedis \<Longrightarrow>
    process_step p (p\<lparr>pc := AtClosePool, redis_open := False\<rparr>)"
| close_pool: "exit_code p = None \<Longrightarrow> pc p = AtClosePool \<Longrightarrow>
    process_step p (p\<lparr>pc := AtReturn, pool_open := False\<rparr>)"
| return: "exit_code p = None \<Longrightarrow> pc p = AtReturn \<Longrightarrow>
    process_step p (p\<lparr>exit_code := Some 0\<rparr>)"

inductive_cases process_stepE: "process_step p p'"

abbreviation process_steps :: "process \<Rightarrow> process \<Rightarrow> bool" where
  "process_steps \<equiv> process_step\<^sup>*\<^sup>*"

text \<open>The process after the connections are up, while it serves.\<close>

definition process_serving :: process where
  "process_serving = process_start\<lparr>pc := AtSignal, pool_open := True, redis_open := True,
     listening := True, requeue_loop := Requeuer_Start, schedule_loop := Scheduler_Start\<rparr>"

lemma reach_serving: "process_steps process_start process_serving"
proof -
  let ?p = "process_start\<lparr>pc := AtRedis, pool_open := True\<rparr>"
  have "process_step process_start ?p"
    by (rule database_up) (simp_all add: process_start_def)
  moreover have "process_step ?p process_serving"
    using serve [of ?p] by (simp add: process_serving_def process_start_def)
  ultimately show ?thesis by (meson rtranclp.rtrancl_into_rtrancl rtranclp.rtrancl_refl)
qed

section \<open>The invariant\<close>

text \<open>What is open and running is determined by where \<^verbatim>\<open>main\<close> is.\<close>

definition started :: "process \<Rightarrow> bool" where
  "started p \<longleftrightarrow> pc p \<noteq> AtDatabase \<and> pc p \<noteq> AtRedis"

definition process_ok :: "process \<Rightarrow> bool" where
  "process_ok p \<longleftrightarrow>
     (pool_open p \<longleftrightarrow> pc p \<noteq> AtDatabase \<and> pc p \<noteq> AtReturn) \<and>
     (redis_open p \<longleftrightarrow> started p \<and> pc p \<noteq> AtClosePool \<and> pc p \<noteq> AtReturn) \<and>
     (listening p \<longrightarrow> pc p = AtSignal \<or> pc p = AtShutdown) \<and>
     (cancelled p \<longleftrightarrow> started p \<and> pc p \<noteq> AtSignal) \<and>
     (requests p > 0 \<longrightarrow> started p) \<and>
     (requests p > 0 \<longrightarrow> \<not> forced p \<longrightarrow> pc p \<noteq> AtCloseRedis \<and> pc p \<noteq> AtClosePool \<and> pc p \<noteq> AtReturn) \<and>
     (requeue_loop p \<noteq> NotStarted \<longleftrightarrow> started p) \<and> (schedule_loop p \<noteq> NotStarted \<longleftrightarrow> started p) \<and>
     (requeue_loop p = Returned \<or> schedule_loop p = Returned \<longrightarrow> cancelled p) \<and>
     (exit_code p = Some 0 \<longrightarrow> pc p = AtReturn) \<and>
     (exit_code p = Some 1 \<longrightarrow> pc p \<in> {AtDatabase, AtRedis, AtSignal, AtShutdown}) \<and>
     (exit_code p = None \<or> exit_code p = Some 0 \<or> exit_code p = Some 1)"

lemma loop_step_cases:
  "loop_step d l l' \<Longrightarrow> l \<noteq> NotStarted \<and> l' \<noteq> NotStarted \<and> (l' = Returned \<longrightarrow> d)"
  by (induction rule: loop_step.induct) simp_all

lemma process_start_ok: "process_ok process_start"
  by (simp add: process_ok_def process_start_def started_def)

lemma process_step_ok: "process_step p p' \<Longrightarrow> process_ok p \<Longrightarrow> process_ok p'"
  by (erule process_stepE; cases "pc p"; simp add: process_ok_def started_def;
      use loop_step_cases in blast)

lemma process_steps_ok: "process_steps process_start p \<Longrightarrow> process_ok p"
  by (induction rule: rtranclp_induct) (auto intro: process_start_ok process_step_ok)

text \<open>After the signal \<^verbatim>\<open>main\<close> does not wait for the loops: they only move the two fields.\<close>

definition shutdown_with :: "loop_state \<Rightarrow> main_pc \<Rightarrow> process" where
  "shutdown_with l at = process_serving\<lparr>pc := at, cancelled := True, requeue_loop := l,
     listening := (at = AtSignal \<or> at = AtShutdown),
     redis_open := (at \<noteq> AtClosePool \<and> at \<noteq> AtReturn), pool_open := (at \<noteq> AtReturn)\<rparr>"

lemma shutdown_steps:
  "process_step (shutdown_with l AtShutdown) (shutdown_with l InShutdown)"
  "process_step (shutdown_with l InShutdown) (shutdown_with l AtCloseRedis)"
  "process_step (shutdown_with l AtCloseRedis) (shutdown_with l AtClosePool)"
  "process_step (shutdown_with l AtClosePool) (shutdown_with l AtReturn)"
  using shutdown_begins [of "shutdown_with l AtShutdown"] shutdown_done [of "shutdown_with l InShutdown"]
    close_redis [of "shutdown_with l AtCloseRedis"] close_pool [of "shutdown_with l AtClosePool"]
  by (simp_all add: shutdown_with_def process_serving_def process_start_def)

lemma reach_pass_at_shutdown: "process_steps process_start (shutdown_with In_runOnce AtShutdown)"
proof -
  let ?p = "process_serving\<lparr>requeue_loop := In_runOnce\<rparr>"
  have "process_step process_serving ?p"
    by (rule process_step.requeuer) (simp_all add: process_serving_def process_start_def loop_step.tick)
  moreover have "process_step ?p (shutdown_with In_runOnce AtShutdown)"
    using process_step.signal [of ?p] by (simp add: shutdown_with_def process_serving_def process_start_def)
  ultimately show ?thesis using reach_serving by (meson rtranclp.rtrancl_into_rtrancl)
qed

end
