(* ===== verification/Process_Props.thy ===== *)
theory Process_Props
  imports Process
begin

text \<open>Start-up and shutdown of the server's process under every interleaving of its goroutines.\<close>

text \<open>C30: The process serves only with its connections up and gives them up in order.  In every
  reachable state: while the listener accepts, the pool and Redis are open; Redis is closed
  only after a signal cancelled the context and the listener was stopped, and the pool only
  after Redis; a request that runs still has both connections unless the shutdown was
  forced; a loop has returned only after the cancellation; an exit with 0 has closed
  everything; and an exit with 1 (a connection or the listener failed) has run none of the
  deferred closes: whatever was opened is still open.\<close>

theorem process_lifecycle:
  assumes "process_steps process_start p"
  shows "(listening p \<longrightarrow> pool_open p \<and> redis_open p) \<and>
    (started p \<and> \<not> redis_open p \<longrightarrow> cancelled p \<and> \<not> listening p) \<and>
    (started p \<and> \<not> pool_open p \<longrightarrow> \<not> redis_open p) \<and>
    (requests p > 0 \<and> \<not> forced p \<longrightarrow> pool_open p \<and> redis_open p) \<and>
    (requeue_loop p = Returned \<or> schedule_loop p = Returned \<longrightarrow> cancelled p) \<and>
    (exit_code p = Some 0 \<longrightarrow> \<not> pool_open p \<and> \<not> redis_open p \<and> \<not> listening p \<and> cancelled p) \<and>
    (exit_code p = Some 1 \<longrightarrow> (pool_open p \<longleftrightarrow> pc p \<noteq> AtDatabase) \<and> (redis_open p \<longleftrightarrow> started p))"
  using process_steps_ok [OF assms]
  by (intro conjI impI; cases "pc p"; simp add: process_ok_def started_def)

theorem process_lifecycle_witness: "pool_open process_serving \<and> redis_open process_serving"
  using process_lifecycle [OF reach_serving] by (simp add: process_serving_def)

text \<open>The shutdown does not wait for the background loops.  The comments promise that
  they stop cleanly with the server, but nothing waits for them: a state is reachable in
  which \<^verbatim>\<open>main\<close> is about to return, Redis and the pool are closed, and the requeuer is
  in the middle of a pass, although the HTTP server was shut down without force.  (A pass
  that has released a task and not pushed it yet loses its push then.)\<close>

lemma loops_are_not_awaited:
  "\<exists>p. process_steps process_start p \<and> pc p = AtReturn \<and> exit_code p = None \<and> \<not> forced p \<and>
     requeue_loop p = In_runOnce \<and> \<not> redis_open p \<and> \<not> pool_open p \<and> process_step p (p\<lparr>exit_code := Some 0\<rparr>)"
proof (intro exI conjI)
  let ?p = "shutdown_with In_runOnce AtReturn"
  show "process_steps process_start ?p"
    using reach_pass_at_shutdown shutdown_steps [of In_runOnce]
    by (meson rtranclp.rtrancl_into_rtrancl)
  show "pc ?p = AtReturn" "exit_code ?p = None" "\<not> forced ?p" "requeue_loop ?p = In_runOnce"
    "\<not> redis_open ?p" "\<not> pool_open ?p"
    by (simp_all add: shutdown_with_def process_serving_def process_start_def)
  then show "process_step ?p (?p\<lparr>exit_code := Some 0\<rparr>)" by (intro process_step.return)
qed

end
