(* ===== verification/Concurrent.thy ===== *)
theory Concurrent
  imports Worker_Liveness Handlers
begin

text \<open>
  The running system as interleaved threads.  A request that creates a task, a pass of the
  requeuer, a pass of the scheduler, a worker and each of its heartbeats is a thread; a turn
  of a thread is one statement of Postgres or one command of Redis with the code up to the
  next one, so that any other thread may run between the insert of a task and its push,
  between the scan of the requeuer and each requeue, between BRPOP and the claim.  The
  sequential definitions of \<^verbatim>\<open>Handlers\<close>, \<^verbatim>\<open>Queue\<close> and \<^verbatim>\<open>Worker\<close> are the runs of one thread alone.

  Faults of Postgres come from the moments of the store, those of Redis from its client;
  besides, any thread may stop at any point (a crash of its process).  Two fields of the
  state are history only: the tasks whose queue entry was lost by a failure, and the workers
  that stopped by one.
\<close>

section \<open>Creating a task\<close>

text \<open>
  Before the insert, before the read of the existing task, before the push.  Of what follows
  the repository's answer only what other threads can see is here: the metrics, the log and
  the push.  The response goes to the client alone; it is in \<open>Handler_CreateTask\<close>.
\<close>

datatype post_phase =
    Posting instant CreateTaskRequest
  | Refetching instant uuid
  | Announcing Task
  | Posted

definition respond ::
  "instant \<Rightarrow> Task result \<Rightarrow> (pg, 'q) world \<Rightarrow> post_phase \<times> (pg, 'q) world" where
  "respond now res g =
     (case res of
        Inl e \<Rightarrow>
          (Posted, log (LogError (if is_no_rows e then ''task not found after idempotency key lookup''
                                  else ''failed to create task'')) g)
      | Inr task \<Rightarrow>
          (let g' = (if is_new task then record_created task g else g) in
           if is_new task \<and> \<not> is_scheduled_future now task then (Announcing task, g') else (Posted, g')))"

fun post_step ::
  "env \<Rightarrow> (pg, 'q) TaskHandler \<Rightarrow> post_phase \<Rightarrow> (pg, 'q) world \<Rightarrow> post_phase \<times> (pg, 'q) world" where
  "post_step env h (Posting now req) g =
     (case uuid_Parse env (req_IdempotencyKey req) of
        Inl txt \<Rightarrow> respond now
          (Inl (Wrapped ''repository: invalid idempotency_key format: '' (ErrorString txt))) g
      | Inr key \<Rightarrow>
         (case marshal_payload env (req_Payload req) of
            Inl e \<Rightarrow> respond now (Inl (Wrapped ''repository: failed to marshal payload: '' e)) g
          | Inr payload \<Rightarrow>
             (case query_row env (\<lambda>m. sql_insert (jsonb_in env) (m_uuid m) key (req_ServiceName req)
                     (req_UserEmail req) payload (req_ScheduledFor req)) (store g) of
                (Inl e, s') \<Rightarrow>
                  (if is_no_rows e \<or> pg_code e = Some ''23505''
                   then (Refetching now key, g\<lparr>store := s'\<rparr>)
                   else respond now (Inl (Wrapped ''repository: failed to insert task: '' e)) (g\<lparr>store := s'\<rparr>))
              | (Inr t, s') \<Rightarrow> respond now (Inr t) (g\<lparr>store := s'\<rparr>))))"
| "post_step env h (Refetching now key) g =
     (case GetTaskByIdempotencyKey env key (store g) of (res, s') \<Rightarrow> respond now res (g\<lparr>store := s'\<rparr>))"
| "post_step env h (Announcing task) g = (Posted, enqueue_created env h task g)"
| "post_step env h Posted g = (Posted, g)"

section \<open>A pass of the requeuer and of the scheduler\<close>

text \<open>A pass over no more tasks has ended.\<close>

datatype requeuer_phase = Scanning | Requeuing "Task list" | Repushing Task "Task list"

fun requeuer_step ::
  "env \<Rightarrow> (pg, 'q) Requeuer \<Rightarrow> requeuer_phase \<Rightarrow> (pg, 'q) world \<Rightarrow> requeuer_phase \<times> (pg, 'q) world" where
  "requeuer_step env r Scanning w =
     (case repo_GetStaleInProgressTasks (rq_repo r) staleLockThreshold (store w) of
        ((tasks, Some e), s') \<Rightarrow>
          (Requeuing [], log (LogError ''requeue: failed to get stale tasks'') (w\<lparr>store := s'\<rparr>))
      | ((tasks, None), s') \<Rightarrow>
          (let w' = w\<lparr>store := s'\<rparr> in
           (Requeuing tasks, if tasks = [] then w' else log (LogWarn ''requeue: found stale tasks'') w')))"
| "requeuer_step env r (Requeuing []) w = (Requeuing [], w)"
| "requeuer_step env r (Requeuing (task # tasks)) w =
     (case repo_RequeueTask (rq_repo r) (ID task) staleLockThreshold (store w) of
        (Inl e, s') \<Rightarrow> (Requeuing tasks, log (LogError ''requeue: failed to reset task'') (w\<lparr>store := s'\<rparr>))
      | (Inr requeued, s') \<Rightarrow>
          (if \<not> requeued then Requeuing tasks else Repushing task tasks, w\<lparr>store := s'\<rparr>))"
| "requeuer_step env r (Repushing task tasks) w =
     (case Enqueue env (rq_producer r) (ID task) (redis w) of
        (Some e, q') \<Rightarrow>
          (Requeuing tasks, log (LogError ''requeue: failed to re-enqueue task'') (w\<lparr>redis := q'\<rparr>))
      | (None, q') \<Rightarrow> (Requeuing tasks, log (LogInfo ''requeue: task reclaimed'') (w\<lparr>redis := q'\<rparr>)))"

datatype scheduler_phase = Querying | Pushing "Task list"

fun scheduler_step ::
  "env \<Rightarrow> (pg, 'q) Scheduler \<Rightarrow> scheduler_phase \<Rightarrow> (pg, 'q) world \<Rightarrow> scheduler_phase \<times> (pg, 'q) world" where
  "scheduler_step env sc Querying w =
     (case repo_GetPendingScheduledTasks (sc_repo sc) (store w) of
        ((tasks, Some e), s') \<Rightarrow>
          (Pushing [], log (LogError ''scheduler: failed to query due tasks'') (w\<lparr>store := s'\<rparr>))
      | ((tasks, None), s') \<Rightarrow>
          (let w' = w\<lparr>store := s'\<rparr> in
           (Pushing tasks,
            if length tasks = 0 then w' else log (LogInfo ''scheduler: enqueueing due tasks'') w')))"
| "scheduler_step env sc (Pushing []) w = (Pushing [], w)"
| "scheduler_step env sc (Pushing (task # tasks)) w = (Pushing tasks, schedule_one env sc task w)"

section \<open>A worker\<close>

text \<open>
  \<open>Receiving\<close>: before BRPOP; \<open>Claiming\<close>: it has an entry; \<open>Rejecting\<close>: no automation for the
  task it claimed; \<open>Working\<close>: its automation runs, with the heartbeats still to fire and the
  result it will have; \<open>Retrying\<close>: RETRY is stored, the push is to come; \<open>Gone\<close>: the process
  has ended.
\<close>

datatype worker_phase =
    Receiving
  | Claiming string
  | Rejecting string task_row
  | Working string task_row nat run_result
  | Retrying string
  | Gone

text \<open>After a result write: the next BRPOP, or the end of the process.\<close>

definition next_task :: "bool result \<times> (pg, 'q) world \<Rightarrow> worker_phase \<times> (pg, 'q) world" where
  "next_task p = (case p of (Inl e, w) \<Rightarrow> (Gone, w) | (Inr landed, w) \<Rightarrow> (Receiving, w))"

definition record_result ::
  "env \<Rightarrow> 'q worker_env \<Rightarrow> string \<Rightarrow> string \<Rightarrow> task_row \<Rightarrow> run_result \<Rightarrow> (pg, 'q) world \<Rightarrow>
   worker_phase \<times> (pg, 'q) world" where
  "record_result env we wid taskId task res w =
     (if scheduled res
      then next_task (pool_query env
        (with_id we taskId (\<lambda>i. worker_scheduleTask i wid (scheduledFor res))) w)
      else if success res
      then next_task (pool_query env (with_id we taskId (\<lambda>i. worker_updateTaskSuccess i wid)) w)
      else if c_attempts task \<ge> c_max task
      then next_task (pool_query env (with_id we taskId
        (\<lambda>i. worker_updateTaskDeadLetter i wid (run_error res) (screenshot_path res))) w)
      else (case pool_query env
                (with_id we taskId (\<lambda>i. worker_updateTaskRetry i wid (run_error res))) w of
           (Inl e, w') \<Rightarrow> (Gone, w')
         | (Inr landed, w') \<Rightarrow> (if landed then Retrying taskId else Receiving, w')))"

fun worker_step ::
  "env \<Rightarrow> 'q worker_env \<Rightarrow> string \<Rightarrow> worker_phase \<Rightarrow> (pg, 'q) world \<Rightarrow> worker_phase \<times> (pg, 'q) world" where
  "worker_step env we wid Receiving w =
     (case brpop we TaskQueueKey (redis w) of
        (Inl txt, q') \<Rightarrow> (Gone, w\<lparr>redis := q'\<rparr>)
      | (Inr None, q') \<Rightarrow> (Receiving, w\<lparr>redis := q'\<rparr>)
      | (Inr (Some taskId), q') \<Rightarrow> (Claiming taskId, w\<lparr>redis := q'\<rparr>))"
| "worker_step env we wid (Claiming taskId) w =
     (case pool_query env (with_id we taskId (\<lambda>i. worker_claimTask i wid)) w of
        (Inl e, w') \<Rightarrow> (Gone, w')
      | (Inr None, w') \<Rightarrow> (Receiving, w')
      | (Inr (Some task), w') \<Rightarrow>
          (case getAutomation (c_service task) of
             None \<Rightarrow> (Rejecting taskId task, w')
           | Some a \<Rightarrow>
               (case run_automation we a task of (n, run) \<Rightarrow> (Working taskId task n (caught run), w'))))"
| "worker_step env we wid (Rejecting taskId task) w =
     next_task (pool_query env (with_id we taskId (\<lambda>i. worker_updateTaskDeadLetter i wid
       (Some (''No automation found for service: '' @ c_service task)) None)) w)"
| "worker_step env we wid (Working taskId task (Suc n) res) w = (Working taskId task n res, w)"
| "worker_step env we wid (Working taskId task 0 res) w = record_result env we wid taskId task res w"
| "worker_step env we wid (Retrying taskId) w =
     (case lpush we TaskQueueKey taskId (redis w) of
        (Some txt, q') \<Rightarrow> (Gone, w\<lparr>redis := q'\<rparr>)
      | (None, q') \<Rightarrow> (Receiving, w\<lparr>redis := q'\<rparr>))"
| "worker_step env we wid Gone w = (Gone, w)"

section \<open>Threads\<close>

datatype thread =
    Post post_phase
  | Reclaim_pass requeuer_phase
  | Schedule_pass scheduler_phase
  | Work string worker_phase
  | Beat string string
  | Ended

text \<open>The timer of \<^verbatim>\<open>setInterval\<close> starts a heartbeat and does not wait for it: it may still be
  on its way when the result is written.\<close>

fun beats_of :: "thread \<Rightarrow> thread list" where
  "beats_of (Work wid (Working taskId task (Suc n) res)) = [Beat wid taskId]"
| "beats_of t = []"

fun thread_step ::
  "env \<Rightarrow> 'q redis_client \<Rightarrow> 'q worker_env \<Rightarrow> thread \<Rightarrow> (pg, 'q) world \<Rightarrow> thread \<times> (pg, 'q) world" where
  "thread_step env c we (Post p) w =
     apfst Post (post_step env (NewTaskHandler (NewPostgresTaskRepo env) (NewProducer c)) p w)"
| "thread_step env c we (Reclaim_pass p) w =
     apfst Reclaim_pass (requeuer_step env (NewRequeuer (NewPostgresTaskRepo env) c) p w)"
| "thread_step env c we (Schedule_pass p) w =
     apfst Schedule_pass (scheduler_step env (NewScheduler (NewPostgresTaskRepo env) c) p w)"
| "thread_step env c we (Work wid p) w = apfst (Work wid) (worker_step env we wid p w)"
| "thread_step env c we (Beat wid taskId) w =
     (Ended, snd (pool_query env (with_id we taskId (\<lambda>i. worker_heartbeat i wid)) w))"
| "thread_step env c we Ended w = (Ended, w)"

section \<open>What a failure loses\<close>

text \<open>The tasks a queue entry stands for, and those whose entry a thread still has to push (or
  holds in its hand).\<close>

definition ids_of :: "'q worker_env \<Rightarrow> string \<Rightarrow> uuid set" where
  "ids_of we taskId = {i. uuid_in we taskId = Some i}"

fun owes :: "'q worker_env \<Rightarrow> thread \<Rightarrow> uuid set" where
  "owes we (Post (Announcing task)) = {ID task}"
| "owes we (Reclaim_pass (Repushing task tasks)) = {ID task}"
| "owes we (Work wid (Claiming taskId)) = ids_of we taskId"
| "owes we (Work wid (Retrying taskId)) = ids_of we taskId"
| "owes we t = {}"

definition reply_lost :: "(pg, 'q) world \<Rightarrow> bool" where
  "reply_lost w \<longleftrightarrow>
     (case m_fault (future (store w) (calls (store w))) of ReplyLost txt \<Rightarrow> True | _ \<Rightarrow> False)"

text \<open>
  The tasks whose entry the turn of a thread loses: a reply that is lost after the statement
  made the row wait (an insert, a requeue, a retry); a push that fails; a worker that fails
  between BRPOP and the end of its claim; a BRPOP whose reply is lost.
\<close>

fun drops ::
  "env \<Rightarrow> 'q redis_client \<Rightarrow> 'q worker_env \<Rightarrow> ('q \<Rightarrow> string \<Rightarrow> string list) \<Rightarrow> thread \<Rightarrow> (pg, 'q) world \<Rightarrow>
   uuid set" where
  "drops env c we items (Post (Posting now req)) w =
     (if reply_lost w then {m_uuid (future (store w) (calls (store w)))} else {})"
| "drops env c we items (Post (Announcing task)) w =
     (if fst (Enqueue env (NewProducer c) (ID task) (redis w)) = None then {} else {ID task})"
| "drops env c we items (Reclaim_pass (Requeuing (task # tasks))) w =
     (if reply_lost w then {ID task} else {})"
| "drops env c we items (Reclaim_pass (Repushing task tasks)) w =
     (if fst (Enqueue env (NewProducer c) (ID task) (redis w)) = None then {} else {ID task})"
| "drops env c we items (Work wid Receiving) w =
     (case fst (brpop we TaskQueueKey (redis w)) of
        Inl txt \<Rightarrow> if pending items (redis w) = [] then {} else ids_of we (last (pending items (redis w)))
      | Inr x \<Rightarrow> {})"
| "drops env c we items (Work wid (Claiming taskId)) w =
     (case fst (pool_query env (with_id we taskId (\<lambda>i. worker_claimTask i wid)) w) of
        Inl e \<Rightarrow> ids_of we taskId | Inr x \<Rightarrow> {})"
| "drops env c we items (Work wid (Working taskId task 0 res)) w =
     (if verdict task res = RETRY \<and> reply_lost w then ids_of we taskId else {})"
| "drops env c we items (Work wid (Retrying taskId)) w =
     (if fst (lpush we TaskQueueKey taskId (redis w)) = None then {} else ids_of we taskId)"
| "drops env c we items t w = {}"

text \<open>The workers whose process a turn or a crash ended.\<close>

fun stops :: "thread \<Rightarrow> thread \<Rightarrow> string set" where
  "stops t (Work wid Gone) = (if t = Work wid Gone then {} else {wid})"
| "stops t t' = {}"

section \<open>The interleaving\<close>

text \<open>The shared state, the threads, and the history fields.\<close>

record ('t, 'q) conc =
  shared :: "(pg, 'q) world"
  threads :: "'t list"
  dropped :: "uuid set"
  stopped :: "string set"

text \<open>A turn of thread \<open>k\<close> of a pool whose threads step by \<open>step\<close> and start others by \<open>fork\<close>.\<close>

definition pool_turn ::
  "('t \<Rightarrow> (pg, 'q) world \<Rightarrow> 't \<times> (pg, 'q) world) \<Rightarrow> ('t \<Rightarrow> 't list) \<Rightarrow>
   ('t \<Rightarrow> (pg, 'q) world \<Rightarrow> uuid set) \<Rightarrow> ('t \<Rightarrow> 't \<Rightarrow> string set) \<Rightarrow> nat \<Rightarrow> ('t, 'q) conc \<Rightarrow> ('t, 'q) conc" where
  "pool_turn step fork loses ends k s =
     (if k < length (threads s)
      then (let t = threads s ! k; (t', w') = step t (shared s) in
        \<lparr>shared = w', threads = (threads s)[k := t'] @ fork t,
         dropped = dropped s \<union> loses t (shared s), stopped = stopped s \<union> ends t t'\<rparr>)
      else s)"

definition turn ::
  "env \<Rightarrow> 'q redis_client \<Rightarrow> 'q worker_env \<Rightarrow> ('q \<Rightarrow> string \<Rightarrow> string list) \<Rightarrow> nat \<Rightarrow>
   (thread, 'q) conc \<Rightarrow> (thread, 'q) conc" where
  "turn env c we items = pool_turn (thread_step env c we) beats_of (drops env c we items) stops"

definition turns ::
  "env \<Rightarrow> 'q redis_client \<Rightarrow> 'q worker_env \<Rightarrow> ('q \<Rightarrow> string \<Rightarrow> string list) \<Rightarrow> nat list \<Rightarrow>
   (thread, 'q) conc \<Rightarrow> (thread, 'q) conc" where
  "turns env c we items = fold (turn env c we items)"

text \<open>Requests that passed the validation, the ticks of the loops, and workers whose name fits
  its column arrive at any time.\<close>

fun arrives :: "thread \<Rightarrow> bool" where
  "arrives (Post (Posting now req)) = (validateCreateTaskRequest req = None)"
| "arrives (Reclaim_pass Scanning) = True"
| "arrives (Schedule_pass Querying) = True"
| "arrives (Work wid Receiving) = (pg_varchar255 wid = Inr wid)"
| "arrives t = False"

fun crashed_thread :: "thread \<Rightarrow> thread" where
  "crashed_thread (Work wid p) = Work wid Gone"
| "crashed_thread t = Ended"

inductive conc_step ::
  "env \<Rightarrow> 'q redis_client \<Rightarrow> 'q worker_env \<Rightarrow> ('q \<Rightarrow> string \<Rightarrow> string list) \<Rightarrow>
   (thread, 'q) conc \<Rightarrow> (thread, 'q) conc \<Rightarrow> bool"
  for env c we items where
  turn: "conc_step env c we items s (turn env c we items k s)"
| arrive: "arrives t \<Longrightarrow> conc_step env c we items s (s\<lparr>threads := threads s @ [t]\<rparr>)"
| shutdown: "k < length (threads s) \<Longrightarrow> threads s ! k = Work wid Receiving \<Longrightarrow>
    conc_step env c we items s (s\<lparr>threads := (threads s)[k := Work wid Gone]\<rparr>)"
| crash: "k < length (threads s) \<Longrightarrow> t = threads s ! k \<Longrightarrow>
    conc_step env c we items s
      (s\<lparr>threads := (threads s)[k := crashed_thread t], dropped := dropped s \<union> owes we t,
         stopped := stopped s \<union> stops t (crashed_thread t)\<rparr>)"

inductive_cases conc_stepE: "conc_step env c we items s s'"

abbreviation conc_steps ::
  "env \<Rightarrow> 'q redis_client \<Rightarrow> 'q worker_env \<Rightarrow> ('q \<Rightarrow> string \<Rightarrow> string list) \<Rightarrow>
   (thread, 'q) conc \<Rightarrow> (thread, 'q) conc \<Rightarrow> bool" where
  "conc_steps env c we items \<equiv> (conc_step env c we items)\<^sup>*\<^sup>*"

text \<open>The system before anything arrived.\<close>

definition conc_start :: "(pg, 'q) world \<Rightarrow> (thread, 'q) conc" where
  "conc_start w = \<lparr>shared = w, threads = [], dropped = {}, stopped = {}\<rparr>"

end
