(* ===== verification/Concurrent_Contract.thy ===== *)
theory Concurrent_Contract
  imports Concurrent
begin

text \<open>
  What the interleaving relies on of each process, as the locale \<open>thread_contract\<close>: a turn
  moves the store by statements of the running system, leaves no waiting task without an
  entry that had one (or had the thread to push it), and no running task without its worker.
  Its interpretations are the four processes and their sum.
\<close>

section \<open>Waiting and running tasks\<close>

definition awaits :: "table \<Rightarrow> uuid set" where
  "awaits rs = c_id ` {r \<in> set rs. needs_worker r}"

definition running :: "table \<Rightarrow> (uuid \<times> string option) set" where
  "running rs = (\<lambda>r. (c_id r, c_locked_by r)) ` {r \<in> set rs. c_status r = IN_PROGRESS}"

text \<open>The tasks with an entry in the pending list.\<close>

definition entered :: "'q worker_env \<Rightarrow> ('q \<Rightarrow> string \<Rightarrow> string list) \<Rightarrow> (pg, 'q) world \<Rightarrow> uuid set" where
  "entered we items w = \<Union> (ids_of we ` set (pending items (redis w)))"

text \<open>The statements after which a task waits, and those that give it to a worker.\<close>

fun wakes :: "db_action \<Rightarrow> uuid set" where
  "wakes (Insert i key svc email p sched) = {i}"
| "wakes (Requeue i th) = {i}"
| "wakes (WRetry i w err) = {i}"
| "wakes a = {}"

fun gives :: "db_action \<Rightarrow> (uuid \<times> string option) set" where
  "gives (Claim i w) = (case pg_varchar255 w of Inl e \<Rightarrow> {} | Inr w' \<Rightarrow> {(i, Some w')})"
| "gives (WClaim i w) = (case pg_varchar255 w of Inl e \<Rightarrow> {} | Inr w' \<Rightarrow> {(i, Some w')})"
| "gives a = {}"

lemma row_update_awaits:
  "row_update now a r r' \<Longrightarrow> no_set_status a \<Longrightarrow> needs_worker r' \<Longrightarrow> needs_worker r \<or> c_id r \<in> wakes a"
  by (cases a) (auto simp: needs_worker_def row_transformers is_stale_def beats_def owned_def)

lemma row_update_running:
  "row_update now a r r' \<Longrightarrow> no_set_status a \<Longrightarrow> c_status r' = IN_PROGRESS \<Longrightarrow>
   c_status r = IN_PROGRESS \<and> c_locked_by r' = c_locked_by r \<or> (c_id r, c_locked_by r') \<in> gives a"
  by (cases a) (auto simp: row_transformers beats_def claimable_def worker_claimable_def)

lemma row_update_keeps_id: "row_update now a r r' \<Longrightarrow> c_id r' = c_id r"
  using row_update_same_task by (simp add: same_task_def)

lemma insert_id:
  assumes "newid \<notin> c_id ` set rs" and "apply_action J now a rs = rs @ [default_row now newid key svc email p sched]"
  shows "wakes a = {newid}"
proof (cases "\<exists>i k sv e q at. a = Insert i k sv e q at")
  case True
  then obtain i k sv e q at where "a = Insert i k sv e q at" by blast
  with apply_insert_rows [of J now i k sv e q at rs] assms show ?thesis by (auto simp: default_row_def)
next
  case False
  then obtain f where "apply_action J now a rs = map f rs"
    using apply_action_rows [of a J now rs] by blast
  with assms(2) have "length rs = length rs + 1" by (metis length_append_singleton length_map add.commute plus_1_eq_Suc)
  then show ?thesis by simp
qed

lemma act_awaits:
  assumes "no_set_status a"
  shows "awaits (apply_action J now a rs) \<subseteq> awaits rs \<union> wakes a"
proof (cases rule: action_cases [of rs J now a])
  case (insert newid key svc email p sched)
  with insert_id [OF insert(1,5)] show ?thesis by (auto simp: awaits_def)
next
  case (update f)
  show ?thesis
  proof
    fix i assume "i \<in> awaits (apply_action J now a rs)"
    then obtain r where r: "r \<in> set rs" "i = c_id (f r)" "needs_worker (f r)"
      unfolding update(1) awaits_def by auto
    from update(2) [OF r(1)] have "c_id (f r) = c_id r" "needs_worker r \<or> c_id r \<in> wakes a"
      using row_update_keeps_id row_update_awaits [OF _ assms _] r(3) by fastforce+
    with r show "i \<in> awaits rs \<union> wakes a" by (auto simp: awaits_def)
  qed
qed

lemma act_running:
  assumes "no_set_status a"
  shows "running (apply_action J now a rs) \<subseteq> running rs \<union> gives a"
proof (cases rule: action_cases [of rs J now a])
  case (insert newid key svc email p sched)
  then show ?thesis by (auto simp: running_def default_row_def)
next
  case (update f)
  show ?thesis
  proof
    fix x assume "x \<in> running (apply_action J now a rs)"
    then obtain r where r: "r \<in> set rs" "x = (c_id (f r), c_locked_by (f r))" "c_status (f r) = IN_PROGRESS"
      unfolding update(1) running_def by auto
    from update(2) [OF r(1)] have "c_id (f r) = c_id r"
      "c_status r = IN_PROGRESS \<and> c_locked_by (f r) = c_locked_by r \<or> (c_id r, c_locked_by (f r)) \<in> gives a"
      using row_update_keeps_id row_update_running [OF _ assms _] r(3) by fastforce+
    with r show "x \<in> running rs \<union> gives a" by (auto simp: running_def)
  qed
qed

section \<open>One statement of a thread\<close>

text \<open>No statement but those of the threads.\<close>

definition undisturbed :: "pg \<Rightarrow> bool" where
  "undisturbed s \<longleftrightarrow> (\<forall>i. m_before (future s i) = [])"

lemma undisturbed_others: "undisturbed s \<Longrightarrow> others_satisfy A s"
  by (simp add: undisturbed_def others_satisfy_def)

abbreviation moment_of :: "pg \<Rightarrow> moment" where
  "moment_of s \<equiv> future s (calls s)"

lemma exec_cases:
  assumes "undisturbed s" and "exec env stmt s = (res, s')"
  obtains (executed) now where "stmt (moment_of s) now (rows s) = (res, rows s')"
  | (failed) e where "res = Inl e" "rows s' = rows s"
  | (lost) e now msg where "res = Inl e" "rows s' = snd (stmt (moment_of s) now (rows s))"
      "m_fault (moment_of s) = ReplyLost msg"
proof -
  have b: "run_actions (jsonb_in env) (m_before (moment_of s)) (clock s, rows s) = (clock s, rows s)"
    using assms(1) by (simp add: undisturbed_def)
  show thesis
    using assms(2) executed failed lost unfolding exec_def Let_def b
    by (cases "m_fault (moment_of s)") (auto split: prod.splits)
qed

lemma exec_undisturbed:
  "undisturbed s \<Longrightarrow> undisturbed (snd (exec env stmt s))"
  by (simp add: undisturbed_def)

text \<open>A statement that stands for the action \<open>a\<close>, whether or not its reply came back.\<close>

lemma exec_sets:
  assumes "undisturbed s" and "exec env stmt s = (res, s')"
    and "\<And>now. snd (stmt (moment_of s) now (rows s)) = rows s \<or>
      (\<exists>a. no_set_status a \<and> wakes a \<subseteq> A \<and> gives a \<subseteq> G \<and>
        snd (stmt (moment_of s) now (rows s)) = apply_action J now a (rows s))"
  shows "awaits (rows s') \<subseteq> awaits (rows s) \<union> A" and "running (rows s') \<subseteq> running (rows s) \<union> G"
proof -
  have "awaits (rows s') \<subseteq> awaits (rows s) \<union> A \<and> running (rows s') \<subseteq> running (rows s) \<union> G"
    using assms(1,2)
  proof (cases rule: exec_cases)
    case (executed now)
    with assms(3) [of now] act_awaits [of _ J now "rows s"] act_running [of _ J now "rows s"]
    show ?thesis by fastforce
  next
    case (failed e)
    then show ?thesis by simp
  next
    case (lost e now msg)
    with assms(3) [of now] act_awaits [of _ J now "rows s"] act_running [of _ J now "rows s"]
    show ?thesis by fastforce
  qed
  then show "awaits (rows s') \<subseteq> awaits (rows s) \<union> A" "running (rows s') \<subseteq> running (rows s) \<union> G"
    by blast+
qed

section \<open>The contract\<close>

lemma set_update_split:
  assumes "k < length xs"
  obtains R where "set xs = insert (xs ! k) R" and "\<And>y. set (xs[k := y]) = insert y R"
proof (rule that [of "set (take k xs) \<union> set (drop (Suc k) xs)"])
  have "set xs = set (take k xs @ xs ! k # drop (Suc k) xs)"
    using id_take_nth_drop [OF assms] by simp
  then show "set xs = insert (xs ! k) (set (take k xs) \<union> set (drop (Suc k) xs))" by simp
qed (simp add: upd_conv_take_nth_drop [OF assms])

locale thread_contract =
  fixes env :: env
    and we :: "'q worker_env"
    and items :: "'q \<Rightarrow> string \<Rightarrow> string list"
    and step :: "'t \<Rightarrow> (pg, 'q) world \<Rightarrow> 't \<times> (pg, 'q) world"
    and fork :: "'t \<Rightarrow> 't list"
    and owed :: "'t \<Rightarrow> uuid set"
    and loses :: "'t \<Rightarrow> (pg, 'q) world \<Rightarrow> uuid set"
    and held :: "'t \<Rightarrow> (uuid \<times> string option) set"
    and ends :: "'t \<Rightarrow> 't \<Rightarrow> string set"
    and fits :: "'t \<Rightarrow> bool"
  assumes runs: "step t w = (t', w') \<Longrightarrow> pg_runs env no_set_status (store w) (store w')"
    and keeps_fit: "step t w = (t', w') \<Longrightarrow> fits t \<Longrightarrow> fits t' \<and> list_all fits (fork t)"
    and delivers: "step t w = (t', w') \<Longrightarrow> fits t \<Longrightarrow> undisturbed (store w) \<Longrightarrow>
      awaits (rows (store w')) - (entered we items w' \<union> owed t' \<union> loses t w) \<subseteq>
        awaits (rows (store w)) - (entered we items w \<union> owed t)"
    and keeps_worker: "step t w = (t', w') \<Longrightarrow> fits t \<Longrightarrow> undisturbed (store w) \<Longrightarrow>
      running (rows (store w')) - (held t' \<union> UNIV \<times> Some ` ends t t') \<subseteq>
        running (rows (store w)) - held t"
begin

text \<open>
  What the threads keep together: nobody else writes to the store; every waiting task has an
  entry, or a thread that owes it, or lost its entry to a failure; every running task is in
  the hands of a thread of the worker that locked it, or that worker has stopped.
\<close>

definition pool_ok :: "('t, 'q) conc \<Rightarrow> bool" where
  "pool_ok s \<longleftrightarrow>
     undisturbed (store (shared s)) \<and> list_all fits (threads s) \<and>
     awaits (rows (store (shared s))) \<subseteq>
       entered we items (shared s) \<union> \<Union> (owed ` set (threads s)) \<union> dropped s \<and>
     running (rows (store (shared s))) \<subseteq>
       \<Union> (held ` set (threads s)) \<union> UNIV \<times> Some ` stopped s"

lemma pool_turn_ok:
  assumes "pool_ok s"
  shows "pool_ok (pool_turn step fork loses ends k s)"
proof (cases "k < length (threads s)")
  case False
  with assms show ?thesis by (simp add: pool_turn_def)
next
  case True
  let ?t = "threads s ! k" and ?w = "shared s"
  obtain t' w' where st: "step ?t ?w = (t', w')" by fastforce
  obtain R where old: "set (threads s) = insert ?t R" and new: "set ((threads s)[k := t']) = insert t' R"
    using set_update_split [OF True] by metis
  have u: "undisturbed (store ?w)" and f: "fits ?t"
    using assms True by (auto simp: pool_ok_def list_all_iff)
  have "undisturbed (store w')" using runs [OF st] u by (simp add: pg_runs_def undisturbed_def)
  moreover have "list_all fits ((threads s)[k := t'] @ fork ?t)"
    using keeps_fit [OF st f] assms new old by (auto simp: pool_ok_def list_all_iff)
  moreover have "awaits (rows (store w')) \<subseteq>
      entered we items w' \<union> \<Union> (owed ` set ((threads s)[k := t'] @ fork ?t)) \<union> (dropped s \<union> loses ?t ?w)"
    using delivers [OF st f u] assms unfolding pool_ok_def old set_append new by blast
  moreover have "running (rows (store w')) \<subseteq>
      \<Union> (held ` set ((threads s)[k := t'] @ fork ?t)) \<union> UNIV \<times> Some ` (stopped s \<union> ends ?t t')"
    using keeps_worker [OF st f u] assms unfolding pool_ok_def old set_append new by blast
  ultimately show ?thesis using True st by (simp add: pool_turn_def pool_ok_def Let_def)
qed

text \<open>A thread that is replaced by one that holds no less, up to what is written off.\<close>

lemma pool_replace:
  assumes "pool_ok s" and "k < length (threads s)" and "fits t'"
    and "owed (threads s ! k) \<subseteq> owed t' \<union> D" and "held (threads s ! k) \<subseteq> held t' \<union> UNIV \<times> Some ` S"
  shows "pool_ok (s\<lparr>threads := (threads s)[k := t'], dropped := dropped s \<union> D, stopped := stopped s \<union> S\<rparr>)"
proof -
  obtain R where old: "set (threads s) = insert (threads s ! k) R"
    and new: "set ((threads s)[k := t']) = insert t' R"
    using set_update_split [OF assms(2)] by metis
  have "awaits (rows (store (shared s))) \<subseteq>
      entered we items (shared s) \<union> \<Union> (owed ` set ((threads s)[k := t'])) \<union> (dropped s \<union> D)"
    using assms(1,4) unfolding pool_ok_def old new by blast
  moreover have "running (rows (store (shared s))) \<subseteq>
      \<Union> (held ` set ((threads s)[k := t'])) \<union> UNIV \<times> Some ` (stopped s \<union> S)"
    using assms(1,5) unfolding pool_ok_def old new by blast
  ultimately show ?thesis using assms(1,3) by (simp add: pool_ok_def list_all_iff old new)
qed

lemma pool_arrive:
  "pool_ok s \<Longrightarrow> fits t \<Longrightarrow> pool_ok (s\<lparr>threads := threads s @ [t]\<rparr>)"
  by (auto simp: pool_ok_def)

end

end
