(* ===== verification/Concurrent_Actions.thy ===== *)
theory Concurrent_Actions
  imports Concurrent_Contract
begin

text \<open>
  The statements each thread runs: \<open>thread_action\<close>, and that a turn of a thread moves the store
  by its own statements only.
\<close>

section \<open>Kinds of threads\<close>

abbreviation pg_requeuer :: "env \<Rightarrow> 'q redis_client \<Rightarrow> (pg, 'q) Requeuer" where
  "pg_requeuer env c \<equiv> NewRequeuer (NewPostgresTaskRepo env) c"

lemmas requeuer_parts = NewRequeuer_def NewScheduler_def NewPostgresTaskRepo_def

lemma thread_step_cases:
  assumes "thread_step env c we t w = (t', w')"
  obtains (post) p p' where "t = Post p" "t' = Post p'"
      "post_step env (NewTaskHandler (NewPostgresTaskRepo env) (NewProducer c)) p w = (p', w')"
  | (reclaim) p p' where "t = Reclaim_pass p" "t' = Reclaim_pass p'"
      "requeuer_step env (pg_requeuer env c) p w = (p', w')"
  | (schedule) p p' where "t = Schedule_pass p" "t' = Schedule_pass p'"
      "scheduler_step env (NewScheduler (NewPostgresTaskRepo env) c) p w = (p', w')"
  | (work) wid p p' where "t = Work wid p" "t' = Work wid p'" "worker_step env we wid p w = (p', w')"
  | (beat) wid tid res where "t = Beat wid tid" "t' = Ended"
      "pool_query env (with_id we tid (\<lambda>i. worker_heartbeat i wid)) w = (res, w')"
  | (ended) "t = Ended" "t' = Ended" "w' = w"
proof (cases t)
  case (Post p)
  with assms post show thesis by (auto simp: apfst_def map_prod_def split: prod.splits)
next
  case (Reclaim_pass p)
  with assms reclaim show thesis by (auto simp: apfst_def map_prod_def split: prod.splits)
next
  case (Schedule_pass p)
  with assms schedule show thesis by (auto simp: apfst_def map_prod_def split: prod.splits)
next
  case (Work wid p)
  with assms work show thesis by (auto simp: apfst_def map_prod_def split: prod.splits)
next
  case (Beat wid tid)
  show thesis
    by (rule beat [of wid tid "fst (pool_query env (with_id we tid (\<lambda>i. worker_heartbeat i wid)) w)"])
      (use assms Beat in auto)
qed (use assms ended in simp)

lemma requeuer_phase_cases:
  obtains (scan) "p = Scanning" | (none) "p = Requeuing []" | (one) task tasks where "p = Requeuing (task # tasks)"
  | (push) task tasks where "p = Repushing task tasks"
  by (metis list.exhaust requeuer_phase.exhaust)

lemma scheduler_phase_cases:
  obtains (scan) "p = Querying" | (none) "p = Pushing []" | (one) task tasks where "p = Pushing (task # tasks)"
  by (metis list.exhaust scheduler_phase.exhaust)

lemma respond_frame:
  "respond now res g = (p', g') \<Longrightarrow> store g' = store g \<and> redis g' = redis g"
  by (auto simp: respond_def Let_def split: sum.splits if_splits)

lemma enqueue_created_redis:
  "Enqueue env (h_producer h) (ID task) (redis g) = (e, q') \<Longrightarrow> redis (enqueue_created env h task g) = q'"
  by (auto simp: enqueue_created_def split: option.split)

text \<open>The actions behind the result writes.\<close>

fun result_write :: "(uuid \<Rightarrow> db_action) \<Rightarrow> string \<Rightarrow> (uuid \<Rightarrow> instant \<Rightarrow> table \<Rightarrow> bool result \<times> table) \<Rightarrow> bool" where
  "result_write act wid stmt \<longleftrightarrow>
     (\<exists>at. act = (\<lambda>i. WSchedule i wid at) \<and> stmt = (\<lambda>i. worker_scheduleTask i wid at)) \<or>
     (act = (\<lambda>i. WSuccess i wid) \<and> stmt = (\<lambda>i. worker_updateTaskSuccess i wid)) \<or>
     (\<exists>err ev. act = (\<lambda>i. WDeadLetter i wid err ev) \<and> stmt = (\<lambda>i. worker_updateTaskDeadLetter i wid err ev)) \<or>
     (\<exists>err. act = (\<lambda>i. WRetry i wid err) \<and> stmt = (\<lambda>i. worker_updateTaskRetry i wid err))"

declare result_write.simps [simp del]

lemma result_writes:
  "result_write (\<lambda>i. WSchedule i wid at) wid (\<lambda>i. worker_scheduleTask i wid at)"
  "result_write (\<lambda>i. WSuccess i wid) wid (\<lambda>i. worker_updateTaskSuccess i wid)"
  "result_write (\<lambda>i. WDeadLetter i wid err ev) wid (\<lambda>i. worker_updateTaskDeadLetter i wid err ev)"
  "result_write (\<lambda>i. WRetry i wid err) wid (\<lambda>i. worker_updateTaskRetry i wid err)"
  by (auto simp: result_write.simps)

section \<open>The statements of a thread\<close>

fun thread_action :: "thread \<Rightarrow> db_action \<Rightarrow> bool" where
  "thread_action (Post p) (Insert i key svc email payload sched) = True"
| "thread_action (Reclaim_pass p) (Requeue i th) = True"
| "thread_action (Work wid p) a = (p \<noteq> Gone \<and> worker_action wid a)"
| "thread_action (Beat wid tid) (Heartbeat i w) = (w = wid)"
| "thread_action t a = False"

lemma thread_action_fenced: "thread_action t a \<Longrightarrow> no_set_status a"
  by (cases "(t, a)" rule: thread_action.cases) (auto intro: worker_fenced)

lemma post_runs:
  assumes "post_step env (NewTaskHandler (NewPostgresTaskRepo env) p) ph g = (ph', g')"
    and A: "\<And>a. thread_action (Post ph) a \<Longrightarrow> A a"
  shows "pg_runs env A (store g) (store g')"
proof (cases ph)
  case (Posting now req)
  have q: "pg_runs env A (store g) s'"
    if "query_row env (\<lambda>m. sql_insert (jsonb_in env) (m_uuid m) k sv e p at) (store g) = (res, s')"
    for k sv e p at res s'
  proof -
    have "pg_runs env A (store g)
        (snd (exec env (\<lambda>m. sql_insert (jsonb_in env) (m_uuid m) k sv e p at) (store g)))"
      by (rule exec_runs) (use apply_action.simps(1) A thread_action.simps(1) in metis)
    with query_row_sndD [OF that] show ?thesis by simp
  qed
  from assms(1) show ?thesis unfolding Posting
    by (auto dest!: respond_frame q split: sum.splits prod.splits if_splits)
next
  case (Refetching now key)
  with assms(1) runs_by_key [of env A "store g" key] show ?thesis
    by (auto dest!: respond_frame split: prod.splits)
qed (use assms(1) in \<open>auto simp: enqueue_created_def split: prod.splits option.splits\<close>)

lemma requeuer_runs:
  assumes "requeuer_step env (pg_requeuer env c) p w = (p', w')"
    and A: "\<And>a. thread_action (Reclaim_pass p) a \<Longrightarrow> A a"
  shows "pg_runs env A (store w) (store w')"
  using assms(1) runs_stale [of env A "store w" staleLockThreshold]
    runs_requeue [of A env "store w" _ staleLockThreshold] A
  by (cases p rule: requeuer_phase_cases)
    (auto simp: requeuer_parts Let_def split: prod.splits option.splits sum.splits; metis snd_conv thread_action.simps(2))+

lemma scheduler_runs:
  assumes "scheduler_step env (NewScheduler (NewPostgresTaskRepo env) c) p w = (p', w')"
  shows "pg_runs env A (store w) (store w')"
  using assms runs_due [of env A "store w"]
  by (cases p rule: scheduler_phase_cases)
    (auto simp: requeuer_parts Let_def split: prod.splits option.splits; metis snd_conv)+

lemma write_runs:
  assumes "result_write act wid stmt" and "pool_query env (with_id we tid stmt) w = (res, w')"
    and A: "\<And>a. worker_action wid a \<Longrightarrow> A a"
  shows "pg_runs env A (store w) (store w')"
proof -
  have "\<exists>a. A a \<and> snd (stmt i now rs) = apply_action (jsonb_in env) now a rs" for i now rs
    using assms(1) by (intro exI [of _ "act i"]) (auto simp: result_write.simps intro: A)
  from pool_query_runs [where stmt = stmt and we = we and tid = tid and w = w, OF this] assms(2) show ?thesis by simp
qed

lemma next_runs:
  "result_write act wid stmt \<Longrightarrow> next_task (pool_query env (with_id we tid stmt) w) = (p', w') \<Longrightarrow>
   (\<And>a. worker_action wid a \<Longrightarrow> A a) \<Longrightarrow> pg_runs env A (store w) (store w')"
  by (auto simp: next_task_def dest: write_runs split: prod.splits sum.splits)

lemma record_result_runs:
  assumes "record_result env we wid tid task res w = (p', w')"
    and A: "\<And>a. worker_action wid a \<Longrightarrow> A a"
  shows "pg_runs env A (store w) (store w')"
proof -
  consider "scheduled res" | "\<not> scheduled res" "success res"
    | "\<not> scheduled res" "\<not> success res" "c_attempts task \<ge> c_max task"
    | "\<not> scheduled res" "\<not> success res" "\<not> c_attempts task \<ge> c_max task" by linarith
  then show ?thesis
  proof cases
    case 1
    with assms(1) next_runs [OF result_writes(1) _ A] show ?thesis by (simp add: record_result_def)
  next
    case 2
    with assms(1) next_runs [OF result_writes(2) _ A] show ?thesis by (simp add: record_result_def)
  next
    case 3
    with assms(1) next_runs [OF result_writes(3) _ A] show ?thesis by (simp add: record_result_def)
  next
    case 4
    with assms(1) write_runs [OF result_writes(4) _ A] show ?thesis
      by (auto simp: record_result_def split: prod.splits sum.splits)
  qed
qed

lemma worker_step_runs:
  assumes "worker_step env we wid p w = (p', w')"
    and A: "\<And>a. worker_action wid a \<Longrightarrow> A a"
  shows "pg_runs env A (store w) (store w')"
proof (cases p)
  case (Claiming tid)
  obtain res w1 where q: "pool_query env (with_id we tid (\<lambda>i. worker_claimTask i wid)) w = (res, w1)"
    by fastforce
  have "\<exists>a. A a \<and> snd (worker_claimTask i wid now rs) = apply_action (jsonb_in env) now a rs"
    for i now rs by (rule worker_statements(1) [OF A])
  from pool_query_runs [where stmt = "\<lambda>i. worker_claimTask i wid" and we = we and tid = tid and w = w,
      OF this]
  have "pg_runs env A (store w) (store w1)" by (simp add: q)
  with assms(1) q show ?thesis
    unfolding Claiming by (auto split: sum.splits option.splits prod.splits)
next
  case (Rejecting tid task)
  with assms(1) next_runs [OF result_writes(3) _ A] show ?thesis by simp
next
  case (Working tid task k res)
  with assms(1) record_result_runs [OF _ A] show ?thesis by (cases k) auto
qed (use assms(1) in \<open>auto split: prod.splits sum.splits option.splits\<close>)

lemma beat_runs:
  assumes "pool_query env (with_id we tid (\<lambda>i. worker_heartbeat i wid)) w = (res, w')"
    and A: "\<And>i. A (Heartbeat i wid)"
  shows "pg_runs env A (store w) (store w')"
proof -
  have "\<exists>a. A a \<and> snd (worker_heartbeat i wid now rs) = apply_action (jsonb_in env) now a rs"
    for i now rs by (rule exI [of _ "Heartbeat i wid"]) (simp add: A)
  from pool_query_runs [where stmt = "\<lambda>i. worker_heartbeat i wid" and we = we and tid = tid and w = w, OF this]
    assms(1) show ?thesis by simp
qed

lemma thread_runs:
  assumes "thread_step env c we t w = (t', w')" and A: "\<And>a. thread_action t a \<Longrightarrow> A a"
  shows "pg_runs env A (store w) (store w')"
  using assms(1)
proof (cases rule: thread_step_cases)
  case (post p p')
  with post_runs [OF post(3)] A show ?thesis by blast
next
  case (reclaim p p')
  with requeuer_runs [OF reclaim(3)] A show ?thesis by blast
next
  case (schedule p p')
  with scheduler_runs show ?thesis by blast
next
  case (work wid p p')
  with worker_step_runs [OF work(3)] A show ?thesis by (cases "p = Gone") simp_all
next
  case (beat wid tid res)
  with beat_runs [OF beat(3)] A show ?thesis by simp
qed simp

end
