(* ===== verification/Concurrent_Threads.thy ===== *)
theory Concurrent_Threads
  imports Concurrent_Actions
begin

text \<open>
  The processes of the program keep the contract of the interleaving: the interpretations of
  \<open>thread_contract\<close> on the turns of a request, of the requeuer, of the scheduler, of a worker,
  and on \<open>thread_step\<close>.
\<close>

text \<open>
  What the threads rely on: LPUSH and BRPOP as Redis documents them, the server's input of
  UUIDs reading back what \<^verbatim>\<open>String\<close> writes, and the worker's name in its column.
\<close>

definition conc_env ::
  "env \<Rightarrow> 'q redis_client \<Rightarrow> 'q worker_env \<Rightarrow> ('q \<Rightarrow> string \<Rightarrow> string list) \<Rightarrow> bool" where
  "conc_env env c we items \<longleftrightarrow>
     lpush_law c items \<and> lpush_law (lpush we) items \<and> brpop_law (brpop we) items \<and>
     (\<forall>i. uuid_in we (uuid_String env i) = Some i)"

fun named :: "thread \<Rightarrow> bool" where
  "named (Work wid p) = (pg_varchar255 wid = Inr wid)"
| "named t = True"

definition fits_env ::
  "env \<Rightarrow> 'q redis_client \<Rightarrow> 'q worker_env \<Rightarrow> ('q \<Rightarrow> string \<Rightarrow> string list) \<Rightarrow> thread \<Rightarrow> bool" where
  "fits_env env c we items t \<longleftrightarrow> conc_env env c we items \<and> named t"

lemma fits_envD:
  assumes "fits_env env c we items t"
  shows "lpush_law c items" and "uuid_in we (uuid_String env i) = Some i"
    and "lpush_law (lpush we) items" and "brpop_law (brpop we) items"
  using assms by (simp_all add: fits_env_def conc_env_def)

text \<open>The tasks a worker has in its hands, with its name in \<open>locked_by\<close>.\<close>

fun holds :: "'q worker_env \<Rightarrow> thread \<Rightarrow> (uuid \<times> string option) set" where
  "holds we (Work wid (Rejecting taskId task)) = ids_of we taskId \<times> {Some wid}"
| "holds we (Work wid (Working taskId task n res)) = ids_of we taskId \<times> {Some wid}"
| "holds we t = {}"

text \<open>The two clauses of the contract that speak of the tasks, for a turn from \<open>t\<close> to \<open>t'\<close>.\<close>

abbreviation keeps_waiting ::
  "env \<Rightarrow> 'q redis_client \<Rightarrow> 'q worker_env \<Rightarrow> ('q \<Rightarrow> string \<Rightarrow> string list) \<Rightarrow>
   thread \<Rightarrow> (pg, 'q) world \<Rightarrow> thread \<Rightarrow> (pg, 'q) world \<Rightarrow> bool" where
  "keeps_waiting env c we items t w t' w' \<equiv>
     awaits (rows (store w')) - (entered we items w' \<union> owes we t' \<union> drops env c we items t w) \<subseteq>
       awaits (rows (store w)) - (entered we items w \<union> owes we t)"

abbreviation keeps_running ::
  "'q worker_env \<Rightarrow> thread \<Rightarrow> (pg, 'q) world \<Rightarrow> thread \<Rightarrow> (pg, 'q) world \<Rightarrow> bool" where
  "keeps_running we t w t' w' \<equiv>
     running (rows (store w')) - (holds we t' \<union> UNIV \<times> Some ` stops t t') \<subseteq>
       running (rows (store w)) - holds we t"

section \<open>Pushing\<close>

lemma entered_mono: "set (pending items (redis w)) \<subseteq> set (pending items (redis w')) \<Longrightarrow>
    entered we items w \<subseteq> entered we items w'"
  by (auto simp: entered_def)

text \<open>A push keeps the entries there are, and adds its own unless it reports an error.\<close>

lemma Enqueue_entered:
  assumes "lpush_law c items" and "uuid_in we (uuid_String env i) = Some i" and "Enqueue env (NewProducer c) i (redis w) = (e, q')" and "redis w' = q'"
  shows "entered we items w \<subseteq> entered we items w'" and "e = None \<Longrightarrow> i \<in> entered we items w'"
proof -
  have law: "lpush_law (client (NewProducer c)) items" using assms(1) by (simp add: NewProducer_def)
  show "entered we items w \<subseteq> entered we items w'"
    using Enqueue_any [OF law assms(3)] assms(4) by (auto simp: entered_def)
  show "i \<in> entered we items w'" if "e = None"
    using Enqueue_ok [OF law] assms(2-4) that by (auto simp: entered_def ids_of_def)
qed

lemma lpush_entered:
  assumes "lpush_law c items" and "c TaskQueueKey tid (redis w) = (e, q')" and "redis w' = q'"
  shows "entered we items w \<subseteq> entered we items w'"
    and "e = None \<Longrightarrow> ids_of we tid \<subseteq> entered we items w'"
  using lpush_lawD(1,2) [OF assms(1,2)] assms(3) by (auto simp: entered_def pending_def)

lemma log_entered [simp]: "entered we items (log e w) = entered we items w"
  by (simp add: entered_def)

lemma store_entered [simp]: "entered we items (w\<lparr>store := s\<rparr>) = entered we items w"
  by (simp add: entered_def)

lemma log_if_entered [simp]: "entered we items (if b then w else log e w) = entered we items w"
  "store (if b then w else log e w) = store w"
  by (simp_all add: entered_def)

section \<open>A request\<close>

lemma respond_owes:
  "respond now (Inr task) g = (p', g') \<Longrightarrow> is_new task \<Longrightarrow> ScheduledFor task = None \<Longrightarrow>
   owes we (Post p') = {ID task}"
  by (auto simp: respond_def Let_def is_scheduled_future_def)

text \<open>The insert: a row it adds waits only if the handler goes on to push it, and only if the
  reply came back.\<close>

lemma insert_sets:
  assumes u: "undisturbed s"
    and q: "query_row env (\<lambda>m. sql_insert (jsonb_in env) (m_uuid m) key svc email p sched) s = (res, s')"
  shows "running (rows s') \<subseteq> running (rows s)"
    and "res = Inl e \<Longrightarrow> awaits (rows s') \<subseteq> awaits (rows s) \<union>
      (case m_fault (moment_of s) of ReplyLost msg \<Rightarrow> {m_uuid (moment_of s)} | _ \<Rightarrow> {})"
    and "res = Inr task \<Longrightarrow> awaits (rows s') \<subseteq> awaits (rows s) \<union>
      (if is_new task \<and> ScheduledFor task = None then {ID task} else {})"
proof -
  let ?stmt = "\<lambda>m. sql_insert (jsonb_in env) (m_uuid m) key svc email p sched"
  obtain res0 where e: "exec env ?stmt s = (res0, s')"
    using q by (auto simp: query_row_def split: prod.splits sum.splits option.splits)
  have act: "snd (?stmt (moment_of s) now (rows s)) = rows s \<or>
      (\<exists>a. no_set_status a \<and> wakes a \<subseteq> {m_uuid (moment_of s)} \<and> gives a \<subseteq> {} \<and>
        snd (?stmt (moment_of s) now (rows s)) = apply_action (jsonb_in env) now a (rows s))" for now
    by (rule disjI2, rule exI [of _ "Insert (m_uuid (moment_of s)) key svc email p sched"]) simp
  note sets = exec_sets [OF u e act]
  show "running (rows s') \<subseteq> running (rows s)" using sets(2) by simp
  show "awaits (rows s') \<subseteq> awaits (rows s) \<union>
      (case m_fault (moment_of s) of ReplyLost msg \<Rightarrow> {m_uuid (moment_of s)} | _ \<Rightarrow> {})" if "res = Inl e" for e
    using u e
  proof (cases rule: exec_cases)
    case (executed now)
    moreover have "res0 = Inr None \<or> (\<exists>e. res0 = Inl e)"
      using q e that by (auto simp: query_row_def split: sum.splits option.splits)
    ultimately have "rows s' = rows s" by (auto simp: sql_insert_def split: sum.splits if_splits)
    then show ?thesis by simp
  next
    case (lost e' now msg)
    with sets(1) show ?thesis by simp
  qed simp
  show "awaits (rows s') \<subseteq> awaits (rows s) \<union>
      (if is_new task \<and> ScheduledFor task = None then {ID task} else {})" if ok: "res = Inr task" for task
  proof -
    obtain r where r: "res0 = Inr (Some r)" "task = scan_task r"
      using q e ok by (auto simp: query_row_def split: sum.splits option.splits)
    obtain now where "?stmt (moment_of s) now (rows s) = (Inr (Some r), rows s')"
      using u e r(1) by (cases rule: exec_cases) auto
    then have "rows s' = rows s @ [r]" "c_created_at r = c_updated_at r"
      by (auto simp: sql_insert_def insert_row_def default_row_def split: sum.splits if_splits)
    moreover have "needs_worker r \<Longrightarrow> c_scheduled_for r = None \<or> c_status r = RETRY"
      by (auto simp: needs_worker_def)
    moreover have "c_status r = PENDING"
      using \<open>?stmt (moment_of s) now (rows s) = (Inr (Some r), rows s')\<close>
      by (auto simp: sql_insert_def insert_row_def default_row_def split: sum.splits if_splits)
    ultimately show ?thesis using r(2) by (auto simp: awaits_def is_new_def scan_task_def)
  qed
qed

lemma exec_reads:
  assumes "undisturbed s" and "\<And>m now rs. snd (stmt m now rs) = rs"
  shows "rows (snd (exec env stmt s)) = rows s"
proof -
  obtain res s' where e: "exec env stmt s = (res, s')" by fastforce
  have "rows s' = rows s"
    using assms(1) e by (cases rule: exec_cases) (use assms(2) in \<open>metis snd_conv\<close>)+
  with e show ?thesis by simp
qed

lemma by_key_rows:
  "undisturbed s \<Longrightarrow> GetTaskByIdempotencyKey env k s = (res, s') \<Longrightarrow> rows s' = rows s"
  using exec_reads [of s "select (sql_by_key k)" env] GetTaskByIdempotencyKey_snd [of env k s]
  by (simp add: select_def)

text \<open>The insert and what the handler makes of its answer.\<close>

lemma insert_waiting:
  assumes u: "undisturbed (store w)"
    and q: "query_row env (\<lambda>m. sql_insert (jsonb_in env) (m_uuid m) k sv e p at) (store w) = (res, s')"
    and r: "(case res of Inl e \<Rightarrow> if is_no_rows e \<or> pg_code e = Some ''23505''
        then (Refetching now k, w\<lparr>store := s'\<rparr>) else respond now (Inl (Wrapped m e)) (w\<lparr>store := s'\<rparr>)
      | Inr x \<Rightarrow> respond now (Inr x) (w\<lparr>store := s'\<rparr>)) = (t', w')"
  shows "keeps_waiting env c we items (Post (Posting now req)) w (Post t') w'"
proof -
  have w': "store w' = s'" "redis w' = redis w"
    using r by (auto dest!: respond_frame split: sum.splits if_splits)
  then have ent: "entered we items w' = entered we items w" by (simp add: entered_def)
  show ?thesis
  proof (cases res)
    case (Inl e')
    with insert_sets(2) [OF u q Inl] show ?thesis
      unfolding w'(1) ent by (auto simp: reply_lost_def split: fault.splits)
  next
    case (Inr task)
    with r have "respond now (Inr task) (w\<lparr>store := s'\<rparr>) = (t', w')" by simp
    from respond_owes [OF this] insert_sets(3) [OF u q Inr] show ?thesis
      unfolding w'(1) ent by (auto split: if_splits)
  qed
qed

lemma posting_waiting:
  assumes u: "undisturbed (store w)"
    and st: "post_step env (NewTaskHandler (NewPostgresTaskRepo env) (NewProducer c)) (Posting now req) w = (t', w')"
  shows "keeps_waiting env c we items (Post (Posting now req)) w (Post t') w'"
proof -
  have early: "rows (store w') = rows (store w) \<and> entered we items w' = entered we items w"
    if "respond now res w = (t', w')" for res
    using respond_frame [OF that] by (simp add: entered_def)
  show ?thesis
  proof (cases "uuid_Parse env (req_IdempotencyKey req)")
    case (Inl e)
    with st early show ?thesis by auto
  next
    case (Inr key)
    note k = Inr
    show ?thesis
    proof (cases "marshal_payload env (req_Payload req)")
      case (Inl e)
      with st k early show ?thesis by auto
    next
      case (Inr payload)
      obtain res s' where q: "query_row env (\<lambda>m. sql_insert (jsonb_in env) (m_uuid m) key
          (req_ServiceName req) (req_UserEmail req) payload (req_ScheduledFor req)) (store w) = (res, s')"
        by fastforce
      show ?thesis
        by (rule insert_waiting [OF u q, where m = "''repository: failed to insert task: ''"])
          (use st k Inr q in \<open>simp split: sum.split\<close>)
    qed
  qed
qed

lemma announce_waiting:
  assumes law: "fits_env env c we items t"
    and w': "w' = enqueue_created env (NewTaskHandler (NewPostgresTaskRepo env) (NewProducer c)) task w"
  shows "keeps_waiting env c we items (Post (Announcing task)) w (Post Posted) w'"
proof -
  obtain e q' where e: "Enqueue env (NewProducer c) (ID task) (redis w) = (e, q')" by fastforce
  have "redis w' = q'" unfolding w' by (rule enqueue_created_redis) (simp add: NewTaskHandler_def e)
  from Enqueue_entered [OF fits_envD(1,2) [OF law] e this] e show ?thesis by (auto simp: w')
qed

interpretation post_thread: thread_contract env we items
  "\<lambda>p. post_step env (NewTaskHandler (NewPostgresTaskRepo env) (NewProducer c)) p" "\<lambda>p. []"
  "\<lambda>p. owes we (Post p)" "\<lambda>p. drops env c we items (Post p)" "\<lambda>p. {}" "\<lambda>p p'. {}"
  "\<lambda>p. fits_env env c we items (Post p)" for env c we items
proof (unfold_locales, goal_cases)
  case (1 t w t' w')
  then show ?case by (rule post_runs) (rule thread_action_fenced)
next
  case (2 t w t' w')
  then show ?case by (simp add: fits_env_def)
next
  case (3 t w t' w')
  note st = 3(1) and u = 3(3)
  show ?case
  proof (cases t)
    case (Posting now req)
    with posting_waiting [OF u] st show ?thesis by blast
  next
    case (Refetching now key)
    with st u by_key_rows [OF u] show ?thesis
      by (auto dest!: respond_frame simp: entered_def split: prod.splits)
  next
    case (Announcing task)
    with st have t': "t' = Posted"
      and w': "w' = enqueue_created env (NewTaskHandler (NewPostgresTaskRepo env) (NewProducer c)) task w"
      by simp_all
    show ?thesis unfolding Announcing t' by (rule announce_waiting [OF 3(2) w'])
  next
    case Posted
    with st show ?thesis by simp
  qed
next
  case (4 t w t' w')
  note st = 4(1) and u = 4(3)
  show ?case
  proof (cases t)
    case (Posting now req)
    with st show ?thesis
      by (auto dest!: respond_frame dest: insert_sets(1) [OF u, THEN subsetD] split: sum.splits prod.splits if_splits)
  next
    case (Refetching now key)
    with st by_key_rows [OF u] show ?thesis
      by (auto dest!: respond_frame split: prod.splits)
  qed (use st in auto)
qed

section \<open>The requeuer\<close>

lemma stale_rows_same:
  assumes "undisturbed s" and "GetStaleInProgressTasks env th s = (res, s')"
  shows "rows s' = rows s"
proof -
  have "rows (snd (GetStaleInProgressTasks env th s)) = rows s"
    unfolding GetStaleInProgressTasks_def query_rows_snd
    by (rule exec_reads [OF assms(1)]) (simp split: sum.split)
  with assms(2) show ?thesis by simp
qed

lemma due_rows_same:
  assumes "undisturbed s" and "GetPendingScheduledTasks env s = (res, s')"
  shows "rows s' = rows s"
proof -
  have "rows (snd (GetPendingScheduledTasks env s)) = rows s"
    unfolding GetPendingScheduledTasks_def query_rows_snd by (rule exec_reads [OF assms(1)]) simp
  with assms(2) show ?thesis by simp
qed

lemma sql_update_missed:
  "sql_update now P ok g rs = (Inr xs, rs') \<Longrightarrow> xs = [] \<Longrightarrow> rs' = rs"
  by (auto simp: sql_update_def filter_empty_conv split: if_splits intro!: map_idI)

lemma sql_update_failed: "sql_update now P ok g rs = (Inl e, rs') \<Longrightarrow> rs' = rs"
  by (auto simp: sql_update_def split: if_splits)

lemma requeue_sets:
  assumes u: "undisturbed s" and q: "RequeueTask env i threshold s = (res, s')"
  shows "running (rows s') \<subseteq> running (rows s)"
    and "awaits (rows s') \<subseteq> awaits (rows s) \<union> {i}"
    and "res = Inr False \<Longrightarrow> awaits (rows s') = awaits (rows s)"
    and "res = Inl e \<Longrightarrow> awaits (rows s') \<subseteq> awaits (rows s) \<union>
      (case m_fault (moment_of s) of ReplyLost msg \<Rightarrow> {i} | _ \<Rightarrow> {})"
proof -
  let ?stmt = "\<lambda>m now rs. case pg_interval (interval_in env) (duration_String threshold) of
    Inl e \<Rightarrow> (Inl e, rs) | Inr th \<Rightarrow> sql_requeue i th now rs"
  obtain res0 where e: "exec env ?stmt s = (res0, s')"
    and r: "res = (case res0 of Inl e \<Rightarrow> Inl (Wrapped ''repository: failed to requeue task: '' e)
      | Inr n \<Rightarrow> Inr (n > 0))"
    using q by (auto simp: RequeueTask_def split: prod.splits sum.splits)
  have act: "snd (?stmt (moment_of s) now (rows s)) = rows s \<or>
      (\<exists>a. no_set_status a \<and> wakes a \<subseteq> {i} \<and> gives a \<subseteq> {} \<and>
        snd (?stmt (moment_of s) now (rows s)) = apply_action (jsonb_in env) now a (rows s))" for now
    by (cases "pg_interval (interval_in env) (duration_String threshold)")
      (auto intro: exI [where x = "Requeue i th" for th])
  note sets = exec_sets [OF u e act]
  show "running (rows s') \<subseteq> running (rows s)" "awaits (rows s') \<subseteq> awaits (rows s) \<union> {i}"
    using sets by simp_all
  show "awaits (rows s') = awaits (rows s)" if no: "res = Inr False"
    using u e
  proof (cases rule: exec_cases)
    case (executed now)
    with no r have "rows s' = rows s"
      by (auto simp: sql_requeue_def split: sum.splits prod.splits dest: sql_update_missed)
    then show ?thesis by simp
  qed (use no r in simp_all)
  show "awaits (rows s') \<subseteq> awaits (rows s) \<union>
      (case m_fault (moment_of s) of ReplyLost msg \<Rightarrow> {i} | _ \<Rightarrow> {})" if no: "res = Inl e" for e
    using u e
  proof (cases rule: exec_cases)
    case (executed now)
    with no r have "rows s' = rows s"
      by (auto simp: sql_requeue_def split: sum.splits prod.splits dest: sql_update_failed)
    then show ?thesis by simp
  next
    case (lost e' now msg)
    with sets(1) show ?thesis by simp
  qed simp
qed

interpretation requeuer_thread: thread_contract env we items
  "\<lambda>p. requeuer_step env (pg_requeuer env c) p" "\<lambda>p. []"
  "\<lambda>p. owes we (Reclaim_pass p)" "\<lambda>p. drops env c we items (Reclaim_pass p)" "\<lambda>p. {}" "\<lambda>p p'. {}"
  "\<lambda>p. fits_env env c we items (Reclaim_pass p)" for env c we items
proof (unfold_locales, goal_cases)
  case (1 t w t' w')
  then show ?case by (rule requeuer_runs) (rule thread_action_fenced)
next
  case (2 t w t' w')
  then show ?case by (simp add: fits_env_def)
next
  case (3 t w t' w')
  note st = 3(1) and u = 3(3)
  show ?case
  proof (cases t)
    case Scanning
    with st stale_rows_same [OF u] show ?thesis
      by (auto simp: requeuer_parts Let_def split: prod.splits option.splits if_splits)
  next
    case (Requeuing tasks)
    show ?thesis
    proof (cases tasks)
      case Nil
      with st Requeuing show ?thesis by auto
    next
      case (Cons task ts)
      obtain res s' where q: "RequeueTask env (ID task) staleLockThreshold (store w) = (res, s')"
        by fastforce
      note sets = requeue_sets [OF u q]
      show ?thesis
      proof (cases res)
        case (Inl e)
        with sets(4) [OF Inl] st q show ?thesis
          unfolding Requeuing Cons by (auto simp: requeuer_parts reply_lost_def split: fault.splits)
      next
        case (Inr b)
        with sets(2) sets(3) st q show ?thesis
          unfolding Requeuing Cons by (cases b) (auto simp: requeuer_parts)
      qed
    qed
  next
    case (Repushing task tasks)
    obtain e q' where e: "Enqueue env (NewProducer c) (ID task) (redis w) = (e, q')" by fastforce
    have w': "store w' = store w" "redis w' = q'"
      using st e unfolding Repushing by (auto simp: requeuer_parts split: option.splits)
    from Enqueue_entered [OF fits_envD(1,2) [OF 3(2)] e w'(2)] e show ?thesis
      by (auto simp: Repushing w')
  qed
next
  case (4 t w t' w')
  note st = 4(1) and u = 4(3)
  show ?case
  proof (cases t rule: requeuer_phase_cases)
    case (one task tasks)
    with st show ?thesis
      by (auto simp: requeuer_parts dest: requeue_sets(1) [OF u, THEN subsetD] split: sum.splits prod.splits if_splits)
  qed (use st stale_rows_same [OF u] in
      \<open>auto simp: requeuer_parts Let_def split: prod.splits option.splits if_splits\<close>)
qed

section \<open>The scheduler\<close>

interpretation scheduler_thread: thread_contract env we items
  "\<lambda>p. scheduler_step env (NewScheduler (NewPostgresTaskRepo env) c) p" "\<lambda>p. []"
  "\<lambda>p. owes we (Schedule_pass p)" "\<lambda>p. drops env c we items (Schedule_pass p)" "\<lambda>p. {}" "\<lambda>p p'. {}"
  "\<lambda>p. fits_env env c we items (Schedule_pass p)" for env c we items
proof (unfold_locales, goal_cases)
  case (1 t w t' w')
  then show ?case by (rule scheduler_runs)
next
  case (2 t w t' w')
  then show ?case by (simp add: fits_env_def)
next
  case (3 t w t' w')
  note st = 3(1) and u = 3(3)
  show ?case
  proof (cases t rule: scheduler_phase_cases)
    case (one task tasks)
    have w': "w' = schedule_one env (NewScheduler (NewPostgresTaskRepo env) c) task w"
      using st one by simp
    obtain e q' where e: "Enqueue env (NewProducer c) (ID task) (redis w) = (e, q')" by fastforce
    have "redis w' = q'"
      unfolding w' using e by (auto simp: schedule_one_def requeuer_parts split: option.splits)
    from Enqueue_entered(1) [OF fits_envD(1,2) [OF 3(2)] e this] show ?thesis
      by (auto simp: w' one)
  qed (use st due_rows_same [OF u] in
      \<open>auto simp: requeuer_parts Let_def split: prod.splits option.splits if_splits\<close>)
next
  case (4 t w t' w')
  note st = 4(1) and u = 4(3)
  show ?case
    by (cases t rule: scheduler_phase_cases)
      (use st due_rows_same [OF u] in
        \<open>auto simp: requeuer_parts Let_def split: prod.splits option.splits if_splits\<close>)
qed

section \<open>A worker\<close>

lemma pool_query_exec:
  "pool_query env stmt w = (res, w') \<Longrightarrow>
   \<exists>s'. exec env (\<lambda>m. stmt) (store w) = (res, s') \<and> w' = w\<lparr>store := s'\<rparr>"
  by (auto simp: pool_query_def split: prod.splits)

lemma with_id_sets:
  assumes u: "undisturbed (store w)" and q: "pool_query env (with_id we tid stmt) w = (res, w')"
    and act: "\<And>i now rs. \<exists>a. no_set_status a \<and> wakes a \<subseteq> W i \<and> gives a \<subseteq> G i \<and>
      snd (stmt i now rs) = apply_action (jsonb_in env) now a rs"
  shows "awaits (rows (store w')) \<subseteq> awaits (rows (store w)) \<union> \<Union> (W ` ids_of we tid)"
    and "running (rows (store w')) \<subseteq> running (rows (store w)) \<union> \<Union> (G ` ids_of we tid)"
proof -
  obtain s' where e: "exec env (\<lambda>m. with_id we tid stmt) (store w) = (res, s')" and w': "w' = w\<lparr>store := s'\<rparr>"
    using pool_query_exec [OF q] by blast
  have "snd (with_id we tid stmt now (rows (store w))) = rows (store w) \<or>
      (\<exists>a. no_set_status a \<and> wakes a \<subseteq> \<Union> (W ` ids_of we tid) \<and> gives a \<subseteq> \<Union> (G ` ids_of we tid) \<and>
        snd (with_id we tid stmt now (rows (store w))) = apply_action (jsonb_in env) now a (rows (store w)))" for now
  proof (cases "uuid_in we tid")
    case None
    then show ?thesis by (simp add: with_id_def)
  next
    case (Some i)
    with act [of i now "rows (store w)"] show ?thesis by (simp add: with_id_def ids_of_def)
  qed
  note sets = exec_sets [OF u e this]
  show "awaits (rows (store w')) \<subseteq> awaits (rows (store w)) \<union> \<Union> (W ` ids_of we tid)"
    using sets(1) by (simp add: w')
  show "running (rows (store w')) \<subseteq> running (rows (store w)) \<union> \<Union> (G ` ids_of we tid)"
    using sets(2) by (simp add: w')
qed

text \<open>A reply means that the statement ran on the task the entry names.\<close>

lemma with_id_ran:
  assumes "undisturbed (store w)" and "pool_query env (with_id we tid stmt) w = (Inr x, w')"
  obtains i now where "ids_of we tid = {i}" and "stmt i now (rows (store w)) = (Inr x, rows (store w'))"
proof -
  obtain s' where e: "exec env (\<lambda>m. with_id we tid stmt) (store w) = (Inr x, s')" and w': "w' = w\<lparr>store := s'\<rparr>"
    using pool_query_exec [OF assms(2)] by blast
  from assms(1) e obtain now where "with_id we tid stmt now (rows (store w)) = (Inr x, rows s')"
    by (cases rule: exec_cases) auto
  then show thesis using that w' by (auto simp: with_id_def ids_of_def split: option.splits)
qed

lemma with_id_error:
  assumes "undisturbed (store w)" and "pool_query env (with_id we tid stmt) w = (Inl e, w')"
    and "\<not> reply_lost w" and "\<And>i now rs e rs'. stmt i now rs = (Inl e, rs') \<Longrightarrow> rs' = rs"
  shows "rows (store w') = rows (store w)"
proof -
  obtain s' where e: "exec env (\<lambda>m. with_id we tid stmt) (store w) = (Inl e, s')" and w': "w' = w\<lparr>store := s'\<rparr>"
    using pool_query_exec [OF assms(2)] by blast
  from assms(1) e show ?thesis
  proof (cases rule: exec_cases)
    case (executed now)
    with assms(4) w' show ?thesis by (auto simp: with_id_def split: option.splits)
  qed (use w' assms(3) in \<open>auto simp: reply_lost_def\<close>)
qed

text \<open>The claim serves its task; a result that lands or not leaves the worker without it.\<close>

lemma claim_serves:
  assumes "worker_claimTask i wid now rs = (Inr x, rs')"
  shows "i \<notin> awaits rs'"
proof
  obtain w' where rs': "rs' = map (\<lambda>r. if worker_claimable i r then claimed_row now w' r else r) rs"
    using assms by (auto simp: worker_claimTask_def sql_update_def split: sum.splits if_splits)
  assume "i \<in> awaits rs'"
  then obtain r where "r \<in> set rs'" "c_id r = i" "needs_worker r" by (auto simp: awaits_def)
  moreover have "\<not> needs_worker (claimed_row now w' r)" for r
    by (simp add: needs_worker_def row_transformers)
  ultimately show False using claimable_needs unfolding rs' by (auto split: if_splits)
qed

lemma filter_head: "filter P xs = z # zs \<Longrightarrow> z \<in> set xs \<and> P z"
  by (drule arg_cong [where f = set]) auto

lemma claim_id:
  assumes "worker_claimTask i wid now rs = (Inr (Some task), rs')"
  shows "c_id task = i"
  using assms
  by (auto simp: worker_claimTask_def sql_update_def worker_claimable_def dest!: filter_head
      split: sum.splits if_splits list.splits)

lemma owned_write:
  assumes "hit (sql_update now (owned i wid) (\<lambda>_. True) g rs) = (Inr b, rs')"
    and "\<And>r. c_status (g r) \<noteq> IN_PROGRESS \<and> c_id (g r) = c_id r"
  shows "(i, Some wid) \<notin> running rs'" and "\<not> b \<Longrightarrow> rs' = rs"
proof -
  have rs': "rs' = map (\<lambda>r. if owned i wid r then touch now (g r) else r) rs"
    and b: "b \<longleftrightarrow> filter (owned i wid) rs \<noteq> []"
    using assms(1) by (simp_all add: sql_update_def hit_def list_all_iff)
  show "(i, Some wid) \<notin> running rs'"
  proof
    assume "(i, Some wid) \<in> running rs'"
    then obtain r' where "r' \<in> set rs'" "c_id r' = i" "c_locked_by r' = Some wid" "c_status r' = IN_PROGRESS"
      by (auto simp: running_def)
    from \<open>r' \<in> set rs'\<close> obtain r where "r' = (if owned i wid r then touch now (g r) else r)"
      unfolding rs' set_map by (rule imageE)
    with \<open>c_id r' = i\<close> \<open>c_locked_by r' = Some wid\<close> \<open>c_status r' = IN_PROGRESS\<close> show False
      using assms(2) [of r] by (auto simp: touch_def owned_def split: if_splits)
  qed
  show "rs' = rs" if "\<not> b"
    unfolding rs' by (rule map_idI) (use b that in \<open>simp add: filter_empty_conv\<close>)
qed

lemma owner_writes:
  assumes "s = worker_updateTaskSuccess i wid \<or> s = worker_scheduleTask i wid at \<or>
    s = worker_updateTaskDeadLetter i wid err ev \<or> s = worker_updateTaskRetry i wid err"
    and "s now rs = (Inr b, rs')"
  shows "(i, Some wid) \<notin> running rs'" and "\<not> b \<Longrightarrow> rs' = rs"
proof -
  have "\<exists>g. hit (sql_update now (owned i wid) (\<lambda>_. True) g rs) = (Inr b, rs') \<and>
      (\<forall>r. c_status (g r) \<noteq> IN_PROGRESS \<and> c_id (g r) = c_id r)"
    using assms(1)
  proof (elim disjE)
    assume "s = worker_updateTaskSuccess i wid"
    with assms(2) show ?thesis
      by (intro exI [of _ success_row]) (simp add: worker_updateTaskSuccess_def success_row_def)
  next
    assume "s = worker_scheduleTask i wid at"
    with assms(2) show ?thesis
      by (intro exI [of _ "schedule_row at"]) (simp add: worker_scheduleTask_def schedule_row_def)
  next
    assume s: "s = worker_updateTaskDeadLetter i wid err ev"
    with assms(2) show ?thesis
      by (intro exI [of _ "dead_row (projr (pg_opt pg_text err)) (projr (pg_opt pg_text ev))"])
        (simp add: worker_updateTaskDeadLetter_def dead_row_def split: sum.splits)
  next
    assume "s = worker_updateTaskRetry i wid err"
    with assms(2) show ?thesis
      by (intro exI [of _ "retry_row (projr (pg_opt pg_text err))"])
        (simp add: worker_updateTaskRetry_def retry_row_def split: sum.splits)
  qed
  then obtain g where g: "hit (sql_update now (owned i wid) (\<lambda>_. True) g rs) = (Inr b, rs')"
    "\<And>r. c_status (g r) \<noteq> IN_PROGRESS \<and> c_id (g r) = c_id r" by blast
  from owned_write [OF g] show "(i, Some wid) \<notin> running rs'" "\<not> b \<Longrightarrow> rs' = rs" by blast+
qed

lemma retry_error: "worker_updateTaskRetry i wid err now rs = (Inl e, rs') \<Longrightarrow> rs' = rs"
  by (auto simp: worker_updateTaskRetry_def hit_def split: sum.splits prod.splits dest: sql_update_failed)

lemma result_write_sets:
  assumes rw: "result_write act wid stmt" and u: "undisturbed (store w)"
    and q: "pool_query env (with_id we tid stmt) w = (res, w')"
  shows "awaits (rows (store w')) \<subseteq> awaits (rows (store w)) \<union> \<Union> ((wakes \<circ> act) ` ids_of we tid)"
    and "running (rows (store w')) \<subseteq> running (rows (store w))"
    and "res = Inr b \<Longrightarrow> running (rows (store w')) \<inter> ids_of we tid \<times> {Some wid} = {}"
    and "res = Inr False \<Longrightarrow> rows (store w') = rows (store w)"
    and "redis w' = redis w"
proof -
  have act: "\<exists>a. no_set_status a \<and> wakes a \<subseteq> (wakes \<circ> act) i \<and> gives a \<subseteq> {} \<and>
      snd (stmt i now rs) = apply_action (jsonb_in env) now a rs" for i now rs
    using rw by (intro exI [of _ "act i"]) (auto simp: result_write.simps)
  note sets = with_id_sets [where W = "wakes \<circ> act" and G = "\<lambda>i. {}", OF u q act]
  show "awaits (rows (store w')) \<subseteq> awaits (rows (store w)) \<union> \<Union> ((wakes \<circ> act) ` ids_of we tid)"
    using sets(1) .
  show "running (rows (store w')) \<subseteq> running (rows (store w))" using sets(2) by simp
  have ran: "\<exists>i now at err ev. ids_of we tid = {i} \<and> (stmt i = worker_updateTaskSuccess i wid \<or>
        stmt i = worker_scheduleTask i wid at \<or> stmt i = worker_updateTaskDeadLetter i wid err ev \<or>
        stmt i = worker_updateTaskRetry i wid err) \<and>
      stmt i now (rows (store w)) = (Inr b, rows (store w'))" if r: "res = Inr b" for b
  proof -
    obtain i now where "ids_of we tid = {i}" "stmt i now (rows (store w)) = (Inr b, rows (store w'))"
      by (rule with_id_ran [OF u q [unfolded r]])
    moreover have "\<exists>at err ev. stmt i = worker_updateTaskSuccess i wid \<or>
        stmt i = worker_scheduleTask i wid at \<or> stmt i = worker_updateTaskDeadLetter i wid err ev \<or>
        stmt i = worker_updateTaskRetry i wid err"
      using rw by (auto simp: result_write.simps)
    ultimately show ?thesis by metis
  qed
  show "running (rows (store w')) \<inter> ids_of we tid \<times> {Some wid} = {}" if "res = Inr b" for b
    using ran [OF that] owner_writes(1) [of _ _ wid] by fastforce
  show "rows (store w') = rows (store w)" if "res = Inr False"
    using ran [OF that] owner_writes(2) [of _ _ wid] by blast
  show "redis w' = redis w" using pool_query_exec [OF q] by auto
qed

text \<open>A write after which the worker goes on to the next task.\<close>

lemma next_task_sets:
  assumes rw: "result_write act wid stmt" and u: "undisturbed (store w)"
    and n: "next_task (pool_query env (with_id we tid stmt) w) = (p', w')" and p: "p \<noteq> Gone"
  shows "awaits (rows (store w')) \<subseteq> awaits (rows (store w)) \<union> \<Union> ((wakes \<circ> act) ` ids_of we tid)"
    and "running (rows (store w')) - UNIV \<times> Some ` stops (Work wid p) (Work wid p') \<subseteq>
      running (rows (store w)) - ids_of we tid \<times> {Some wid}"
    and "redis w' = redis w" and "owes we (Work wid p') = {}"
proof -
  obtain res where q: "pool_query env (with_id we tid stmt) w = (res, w')"
    and p': "p' = (case res of Inl e \<Rightarrow> Gone | Inr b \<Rightarrow> Receiving)"
    using n by (auto simp: next_task_def split: prod.splits sum.splits)
  note sets = result_write_sets [OF rw u q]
  show "awaits (rows (store w')) \<subseteq> awaits (rows (store w)) \<union> \<Union> ((wakes \<circ> act) ` ids_of we tid)"
    "redis w' = redis w" using sets by blast+
  show "running (rows (store w')) - UNIV \<times> Some ` stops (Work wid p) (Work wid p') \<subseteq>
      running (rows (store w)) - ids_of we tid \<times> {Some wid}"
    using sets(2,3) p p' by (cases res) auto
  show "owes we (Work wid p') = {}" using p' by (cases res) simp_all
qed

lemma record_result_sets:
  assumes u: "undisturbed (store w)" and r: "record_result env we wid tid task res w = (p', w')"
  shows "awaits (rows (store w')) \<subseteq> awaits (rows (store w)) \<union> owes we (Work wid p') \<union>
      drops env c we items (Work wid (Working tid task 0 res)) w"
    and "running (rows (store w')) - UNIV \<times> Some ` stops (Work wid (Working tid task 0 res)) (Work wid p') \<subseteq>
      running (rows (store w)) - ids_of we tid \<times> {Some wid}"
    and "redis w' = redis w"
proof -
  have "awaits (rows (store w')) \<subseteq> awaits (rows (store w)) \<union> owes we (Work wid p') \<union>
      drops env c we items (Work wid (Working tid task 0 res)) w \<and>
    running (rows (store w')) - UNIV \<times> Some ` stops (Work wid (Working tid task 0 res)) (Work wid p') \<subseteq>
      running (rows (store w)) - ids_of we tid \<times> {Some wid} \<and> redis w' = redis w"
  proof (cases "verdict task res = RETRY")
    case False
    then have v: "scheduled res \<or> success res \<or> c_attempts task \<ge> c_max task"
      by (auto simp: verdict_def split: if_splits)
    have "awaits (rows (store w')) \<subseteq> awaits (rows (store w)) \<and>
      running (rows (store w')) - UNIV \<times> Some ` stops (Work wid (Working tid task 0 res)) (Work wid p') \<subseteq>
        running (rows (store w)) - ids_of we tid \<times> {Some wid} \<and> redis w' = redis w"
      if "result_write act wid stmt" "\<And>i. wakes (act i) = {}"
        "next_task (pool_query env (with_id we tid stmt) w) = (p', w')" for act stmt
      using next_task_sets [OF that(1) u that(3), where p = "Working tid task 0 res"] that(2) by simp
    note done' = this [OF result_writes(1)] this [OF result_writes(2)] this [OF result_writes(3)]
    from v r done' show ?thesis
      by (auto simp: record_result_def split: if_splits)
  next
    case True
    then have v: "\<not> scheduled res" "\<not> success res" "\<not> c_attempts task \<ge> c_max task"
      by (auto simp: verdict_def split: if_splits)
    obtain x where q: "pool_query env (with_id we tid (\<lambda>i. worker_updateTaskRetry i wid (run_error res))) w = (x, w')"
      and p': "p' = (case x of Inl e \<Rightarrow> Gone | Inr True \<Rightarrow> Retrying tid | Inr False \<Rightarrow> Receiving)"
      using r v by (auto simp: record_result_def split: prod.splits sum.splits if_splits)
    note sets = result_write_sets [OF result_writes(4) u q]
    show ?thesis
    proof (cases x)
      case (Inl e)
      have "rows (store w') = rows (store w)" if "\<not> reply_lost w"
        using with_id_error [OF u q [unfolded Inl] that] retry_error by blast
      with sets Inl p' True show ?thesis by auto
    next
      case (Inr b)
      show ?thesis
      proof (cases b)
        case True
        with sets(1,2,5) sets(3) [OF Inr] Inr p' show ?thesis by auto
      next
        case False
        with sets(2,4,5) sets(3) [OF Inr] Inr p' show ?thesis by auto
      qed
    qed
  qed
  then show "awaits (rows (store w')) \<subseteq> awaits (rows (store w)) \<union> owes we (Work wid p') \<union>
      drops env c we items (Work wid (Working tid task 0 res)) w"
    "running (rows (store w')) - UNIV \<times> Some ` stops (Work wid (Working tid task 0 res)) (Work wid p') \<subseteq>
      running (rows (store w)) - ids_of we tid \<times> {Some wid}"
    "redis w' = redis w" by blast+
qed

lemma set_butlast_last: "xs \<noteq> [] \<Longrightarrow> set xs = insert (last xs) (set (butlast xs))"
  by (induction xs) auto

lemma receive_waiting:
  assumes env: "brpop_law (brpop we) items"
    and st: "worker_step env we wid Receiving w = (p', w')"
  shows "keeps_waiting env c we items (Work wid Receiving) w (Work wid p') w'"
proof -
  obtain r q' where b: "brpop we TaskQueueKey (redis w) = (r, q')" by fastforce
  have w': "store w' = store w" "redis w' = q'"
    using st b by (auto split: sum.splits option.splits)
  note law = brpop_lawD [OF env, of TaskQueueKey "redis w", unfolded b]
  show ?thesis
  proof (cases r)
    case (Inl e)
    then have "set (pending items (redis w)) \<subseteq> set (pending items q') \<union>
        (if pending items (redis w) = [] then {} else {last (pending items (redis w))})"
      using law set_butlast_last [of "items (redis w) TaskQueueKey"] by (auto simp: pending_def)
    then have "entered we items w \<subseteq> entered we items w' \<union> drops env c we items (Work wid Receiving) w"
      using Inl b w' by (auto simp: entered_def split: if_splits)
    then show ?thesis unfolding w' by (auto simp del: drops.simps)
  next
    case (Inr x)
    show ?thesis
    proof (cases x)
      case None
      then have "p' = Receiving" "pending items (redis w) = []"
        using st b Inr law by (auto simp: pending_def)
      then show ?thesis unfolding w' by (auto simp: entered_def)
    next
      case (Some v)
      then have "p' = Claiming v" "pending items (redis w) = pending items q' @ [v]"
        using st b Inr law by (auto simp: pending_def)
      then show ?thesis unfolding w' by (auto simp: entered_def w')
    qed
  qed
qed

lemma claim_waiting:
  assumes u: "undisturbed (store w)" and st: "worker_step env we wid (Claiming tid) w = (p', w')"
  shows "keeps_waiting env c we items (Work wid (Claiming tid)) w (Work wid p') w'"
proof -
  obtain res w1 where q: "pool_query env (with_id we tid (\<lambda>i. worker_claimTask i wid)) w = (res, w1)"
    by fastforce
  have w': "w' = w1" using st q by (auto split: sum.splits option.splits prod.splits)
  have ent: "entered we items w' = entered we items w"
    using pool_query_exec [OF q] w' by auto
  have act: "\<exists>a. no_set_status a \<and> wakes a \<subseteq> {} \<and> gives a \<subseteq> UNIV \<and>
      snd (worker_claimTask i wid now rs) = apply_action (jsonb_in env) now a rs" for i now rs
    by (rule exI [of _ "WClaim i wid"]) simp
  have aw: "awaits (rows (store w')) \<subseteq> awaits (rows (store w))"
    using with_id_sets(1) [where W = "\<lambda>i. {}" and G = "\<lambda>i. UNIV", OF u q act] w' by simp
  show ?thesis
  proof (cases res)
    case (Inl e)
    with q aw ent show ?thesis by auto
  next
    case (Inr x)
    obtain i now where "ids_of we tid = {i}"
      "worker_claimTask i wid now (rows (store w)) = (Inr x, rows (store w1))"
      using with_id_ran [OF u q [unfolded Inr]] by metis
    with claim_serves aw ent w' show ?thesis by auto
  qed
qed

lemma retry_waiting:
  assumes env: "lpush_law (lpush we) items"
    and st: "worker_step env we wid (Retrying tid) w = (p', w')"
  shows "keeps_waiting env c we items (Work wid (Retrying tid)) w (Work wid p') w'"
proof -
  obtain e q' where e: "lpush we TaskQueueKey tid (redis w) = (e, q')" by fastforce
  have w': "store w' = store w" "redis w' = q'" "owes we (Work wid p') = {}"
    using st e by (auto split: option.splits)
  have "ids_of we tid \<subseteq> entered we items w' \<union> drops env c we items (Work wid (Retrying tid)) w"
    using lpush_entered(2) [OF env e w'(2)] e by auto
  with lpush_entered(1) [OF env e w'(2)] w' show ?thesis by auto
qed

lemma worker_waiting:
  assumes st: "worker_step env we wid p w = (p', w')" and env: "fits_env env c we items (Work wid p)"
    and u: "undisturbed (store w)"
  shows "keeps_waiting env c we items (Work wid p) w (Work wid p') w'"
proof (cases p)
  case Receiving
  with receive_waiting [OF fits_envD(4) [OF env]] st show ?thesis by blast
next
  case (Claiming tid)
  with claim_waiting [OF u] st show ?thesis by blast
next
  case (Rejecting tid task)
  with st next_task_sets [OF result_writes(3) u, where p = "Rejecting tid task"] show ?thesis
    by (fastforce simp: entered_def)
next
  case (Working tid task n res)
  show ?thesis
  proof (cases n)
    case 0
    have r: "record_result env we wid tid task res w = (p', w')" using st Working 0 by simp
    have "entered we items w' = entered we items w"
      using record_result_sets(3) [OF u r] by (simp add: entered_def)
    with record_result_sets(1) [OF u r, of c items] Working 0 show ?thesis by auto
  next
    case (Suc m)
    with st Working show ?thesis by auto
  qed
next
  case (Retrying tid)
  with retry_waiting [OF fits_envD(3) [OF env]] st show ?thesis by blast
next
  case Gone
  with st show ?thesis by auto
qed

lemma claim_running:
  assumes u: "undisturbed (store w)" and name: "pg_varchar255 wid = Inr wid"
    and st: "worker_step env we wid (Claiming tid) w = (p', w')"
  shows "keeps_running we (Work wid (Claiming tid)) w (Work wid p') w'"
proof -
  obtain res w1 where q: "pool_query env (with_id we tid (\<lambda>i. worker_claimTask i wid)) w = (res, w1)"
    by fastforce
  have act: "\<exists>a. no_set_status a \<and> wakes a \<subseteq> UNIV \<and> gives a \<subseteq> {(i, Some wid)} \<and>
      snd (worker_claimTask i wid now rs) = apply_action (jsonb_in env) now a rs" for i now rs
    by (rule exI [of _ "WClaim i wid"]) (simp add: name)
  have ru: "running (rows (store w1)) \<subseteq> running (rows (store w)) \<union> ids_of we tid \<times> {Some wid}"
    using with_id_sets(2) [where W = "\<lambda>i. UNIV" and G = "\<lambda>i. {(i, Some wid)}", OF u q act] by auto
  show ?thesis
  proof (cases res)
    case (Inl e)
    then have "w' = w1" "p' = Gone" using st q by auto
    with ru show ?thesis by auto
  next
    case (Inr x)
    show ?thesis
    proof (cases x)
      case None
      obtain i now where "worker_claimTask i wid now (rows (store w)) = (Inr None, rows (store w1))"
        using with_id_ran [OF u q [unfolded Inr None]] by metis
      then have "rows (store w1) = rows (store w)"
        by (auto simp: worker_claimTask_def split: sum.splits prod.splits list.splits dest: sql_update_missed)
      moreover have "w' = w1" using st q Inr None by auto
      ultimately show ?thesis by simp
    next
      case (Some task)
      then have "w' = w1" "holds we (Work wid p') = ids_of we tid \<times> {Some wid}"
        using st q Inr by (auto split: option.splits prod.splits)
      with ru show ?thesis by auto
    qed
  qed
qed

lemma worker_running:
  assumes st: "worker_step env we wid p w = (p', w')" and env: "fits_env env c we items (Work wid p)"
    and u: "undisturbed (store w)"
  shows "keeps_running we (Work wid p) w (Work wid p') w'"
proof (cases p)
  case (Claiming tid)
  have "pg_varchar255 wid = Inr wid" using env by (simp add: fits_env_def)
  with claim_running [OF u] st Claiming show ?thesis by blast
next
  case (Rejecting tid task)
  with st next_task_sets(2) [OF result_writes(3) u, where p = "Rejecting tid task"] show ?thesis by fastforce
next
  case (Working tid task n res)
  show ?thesis
  proof (cases n)
    case 0
    have r: "record_result env we wid tid task res w = (p', w')" using st Working 0 by simp
    from record_result_sets(2) [OF u r] Working 0 show ?thesis by auto
  next
    case (Suc m)
    with st Working show ?thesis by auto
  qed
qed (use st in \<open>auto split: sum.splits option.splits prod.splits\<close>)

interpretation worker_thread: thread_contract env we items
  "\<lambda>p. worker_step env we wid p" "\<lambda>p. []"
  "\<lambda>p. owes we (Work wid p)" "\<lambda>p. drops env c we items (Work wid p)" "\<lambda>p. holds we (Work wid p)"
  "\<lambda>p p'. stops (Work wid p) (Work wid p')" "\<lambda>p. fits_env env c we items (Work wid p)" for env c we items wid
proof (unfold_locales, goal_cases)
  case (1 t w t' w')
  then show ?case by (rule worker_step_runs) (rule worker_fenced)
next
  case (2 t w t' w')
  then show ?case by (simp add: fits_env_def)
next
  case (3 t w t' w')
  then show ?case by (rule worker_waiting)
next
  case (4 t w t' w')
  then show ?case by (rule worker_running)
qed

section \<open>All threads\<close>

lemma beat_sets:
  assumes u: "undisturbed (store w)"
    and q: "pool_query env (with_id we tid (\<lambda>i. worker_heartbeat i wid)) w = (res, w')"
  shows "awaits (rows (store w')) \<subseteq> awaits (rows (store w))"
    and "running (rows (store w')) \<subseteq> running (rows (store w))" and "entered we items w' = entered we items w"
proof -
  have act: "\<exists>a. no_set_status a \<and> wakes a \<subseteq> {} \<and> gives a \<subseteq> {} \<and>
      snd (worker_heartbeat i wid now rs) = apply_action (jsonb_in env) now a rs" for i now rs
    by (rule exI [of _ "Heartbeat i wid"]) simp
  from with_id_sets [where W = "\<lambda>i. {}" and G = "\<lambda>i. {}", OF u q act]
  show "awaits (rows (store w')) \<subseteq> awaits (rows (store w))"
    "running (rows (store w')) \<subseteq> running (rows (store w))" by simp_all
  show "entered we items w' = entered we items w" using pool_query_exec [OF q] by (auto simp: entered_def)
qed

interpretation threads: thread_contract env we items
  "thread_step env c we" beats_of "owes we" "drops env c we items" "holds we" stops
  "fits_env env c we items" for env we items c
proof (unfold_locales, goal_cases)
  case (1 t w t' w')
  then show ?case by (rule thread_runs) (rule thread_action_fenced)
next
  case (2 t w t' w')
  have "list_all (fits_env env c we items) (beats_of t)"
    using 2(2) by (cases t rule: beats_of.cases) (simp_all add: fits_env_def)
  moreover have "fits_env env c we items t'"
    using 2(1) by (cases rule: thread_step_cases) (use 2(2) in \<open>simp_all add: fits_env_def\<close>)
  ultimately show ?case by simp
next
  case (3 t w t' w')
  from 3(1) show ?case
  proof (cases rule: thread_step_cases)
    case (post p p')
    with post_thread.delivers [OF post(3)] 3(2,3) show ?thesis by simp
  next
    case (reclaim p p')
    with requeuer_thread.delivers [OF reclaim(3)] 3(2,3) show ?thesis by simp
  next
    case (schedule p p')
    with scheduler_thread.delivers [OF schedule(3)] 3(2,3) show ?thesis by simp
  next
    case (work wid p p')
    with worker_thread.delivers [OF work(3)] 3(2,3) show ?thesis by simp
  next
    case (beat wid tid res)
    with beat_sets(1,3) [OF 3(3) beat(3)] show ?thesis by auto
  qed simp
next
  case (4 t w t' w')
  from 4(1) show ?case
  proof (cases rule: thread_step_cases)
    case (post p p')
    with post_thread.keeps_worker [OF post(3)] 4(2,3) show ?thesis by simp
  next
    case (reclaim p p')
    with requeuer_thread.keeps_worker [OF reclaim(3)] 4(2,3) show ?thesis by simp
  next
    case (schedule p p')
    with scheduler_thread.keeps_worker [OF schedule(3)] 4(2,3) show ?thesis by simp
  next
    case (work wid p p')
    with worker_thread.keeps_worker [OF work(3)] 4(2,3) show ?thesis by simp
  next
    case (beat wid tid res)
    with beat_sets(2) [OF 4(3) beat(3)] show ?thesis by simp
  qed simp
qed

end
