(* ===== verification/Concurrent_Runs.thy ===== *)
theory Concurrent_Runs
  imports Concurrent_Threads
begin

text \<open>
  The sequential definitions are runs of the interleaving: a request, a pass of the requeuer
  or the scheduler, and the loop of a worker, each alone in the pool, take turns to the state
  that \<open>Handler_CreateTask\<close>, \<open>Requeuer_runOnce\<close>, \<open>Scheduler_runOnce\<close> and \<open>worker_loop\<close> compute,
  for every store, with its faults, and every Redis.
\<close>

text \<open>Some turns take the threads \<open>ts\<close> over the state \<open>w\<close> to \<open>ts'\<close> over \<open>w'\<close>.\<close>

definition goes ::
  "env \<Rightarrow> 'q redis_client \<Rightarrow> 'q worker_env \<Rightarrow> ('q \<Rightarrow> string \<Rightarrow> string list) \<Rightarrow>
   thread list \<times> (pg, 'q) world \<Rightarrow> thread list \<times> (pg, 'q) world \<Rightarrow> bool" where
  "goes env c we items p p' \<longleftrightarrow>
     (\<forall>D S. \<exists>ks D' S'. turns env c we items ks \<lparr>shared = snd p, threads = fst p, dropped = D, stopped = S\<rparr> =
        \<lparr>shared = snd p', threads = fst p', dropped = D', stopped = S'\<rparr>)"

lemma turns_append: "turns env c we items (ks @ ks') s = turns env c we items ks' (turns env c we items ks s)"
  by (simp add: turns_def)

lemma goes_refl [simp]: "goes env c we items p p"
  unfolding goes_def by (intro allI exI [where x = "[]"]) (auto simp: turns_def)

lemma goes_trans:
  assumes "goes env c we items p p'" and "goes env c we items p' p''"
  shows "goes env c we items p p''"
  unfolding goes_def
proof (intro allI)
  fix D S
  obtain ks D' S' where 1: "turns env c we items ks \<lparr>shared = snd p, threads = fst p, dropped = D, stopped = S\<rparr> =
      \<lparr>shared = snd p', threads = fst p', dropped = D', stopped = S'\<rparr>"
    using assms(1) unfolding goes_def by blast
  obtain ks' D'' S'' where 2: "turns env c we items ks' \<lparr>shared = snd p', threads = fst p', dropped = D', stopped = S'\<rparr> =
      \<lparr>shared = snd p'', threads = fst p'', dropped = D'', stopped = S''\<rparr>"
    using assms(2) unfolding goes_def by blast
  show "\<exists>ks D' S'. turns env c we items ks \<lparr>shared = snd p, threads = fst p, dropped = D, stopped = S\<rparr> =
      \<lparr>shared = snd p'', threads = fst p'', dropped = D', stopped = S'\<rparr>"
    by (intro exI [where x = "ks @ ks'"] exI [where x = D''] exI [where x = S'']) (simp add: turns_append 1 2)
qed

text \<open>One turn of the first thread; the turn of a heartbeat at the end of the pool.\<close>

lemma goes_first:
  assumes "thread_step env c we t w = (t', w')"
  shows "goes env c we items (t # ts, w) (t' # ts @ beats_of t, w')"
  unfolding goes_def
  by (intro allI exI [where x = "[0]"]) (simp add: turns_def turn_def pool_turn_def assms)

lemma goes_beat:
  "goes env c we items (ts @ [Beat wid tid], w)
     (ts @ [Ended], snd (pool_query env (with_id we tid (\<lambda>i. worker_heartbeat i wid)) w))"
  unfolding goes_def
  by (intro allI exI [where x = "[length ts]"]) (simp add: turns_def turn_def pool_turn_def)

lemma goes_step:
  assumes "thread_step env c we t w = (t', w')" and "beats_of t = []"
    and "goes env c we items (t' # ts, w') p"
  shows "goes env c we items (t # ts, w) p"
  using goes_trans [OF goes_first [OF assms(1)]] assms(2,3) by simp

section \<open>A request\<close>

abbreviation pg_handler :: "env \<Rightarrow> 'q redis_client \<Rightarrow> (pg, 'q) TaskHandler" where
  "pg_handler env c \<equiv> NewTaskHandler (NewPostgresTaskRepo env) (NewProducer c)"

text \<open>What the handler does with the result of \<open>CreateTask\<close>.\<close>

definition finish_create ::
  "env \<Rightarrow> (pg, 'q) TaskHandler \<Rightarrow> instant \<Rightarrow> Task result \<Rightarrow> (pg, 'q) world \<Rightarrow> (pg, 'q) world" where
  "finish_create env h now res g =
     (case respond now res g of (ph, g') \<Rightarrow> snd (post_step env h ph g'))"

lemma respond_goes:
  "goes env c we items ([Post (fst (respond now res g))], snd (respond now res g))
     ([Post Posted], finish_create env (pg_handler env c) now res g)"
proof (cases "fst (respond now res g)")
  case (Announcing task)
  then obtain g' where r: "respond now res g = (Announcing task, g')" by (metis prod.collapse)
  show ?thesis
    by (rule goes_step [where t' = "Post Posted" and w' = "enqueue_created env (pg_handler env c) task g'"])
      (simp_all add: r finish_create_def)
next
  case Posted
  then obtain g' where "respond now res g = (Posted, g')" by (metis prod.collapse)
  then show ?thesis by (simp add: finish_create_def)
qed (auto simp: respond_def Let_def split: sum.splits if_splits)

lemma handler_finish:
  assumes "json_Decode env (r_body r) = Inr req" and "validateCreateTaskRequest req = None"
  shows "snd (Handler_CreateTask env (pg_handler env c) now r (w, g)) =
    (case CreateTask env req (store g) of (res, s') \<Rightarrow>
       finish_create env (pg_handler env c) now res (g\<lparr>store := s'\<rparr>))"
  by (auto simp: Handler_CreateTask_def assms NewTaskHandler_def NewPostgresTaskRepo_def finish_create_def
      respond_def Let_def split: prod.split sum.split)

lemma create_goes:
  "goes env c we items ([Post (Posting now req)], g)
     ([Post Posted], case CreateTask env req (store g) of (res, s') \<Rightarrow>
        finish_create env (pg_handler env c) now res (g\<lparr>store := s'\<rparr>))"
proof (cases "uuid_Parse env (req_IdempotencyKey req)")
  case (Inl e)
  show ?thesis
    by (rule goes_step [OF prod.collapse [symmetric]])
      (use respond_goes [of env c we items now _ g] in \<open>simp_all add: Inl CreateTask_def\<close>)
next
  case (Inr key)
  note k = Inr
  show ?thesis
  proof (cases "marshal_payload env (req_Payload req)")
    case (Inl e)
    show ?thesis
      by (rule goes_step [OF prod.collapse [symmetric]])
        (use respond_goes [of env c we items now _ g] in \<open>simp_all add: k Inl CreateTask_def\<close>)
  next
    case (Inr payload)
    obtain res s' where q: "query_row env (\<lambda>m. sql_insert (jsonb_in env) (m_uuid m) key
        (req_ServiceName req) (req_UserEmail req) payload (req_ScheduledFor req)) (store g) = (res, s')"
      by fastforce
    show ?thesis
    proof (cases "\<exists>e. res = Inl e \<and> (is_no_rows e \<or> pg_code e = Some ''23505'')")
      case True
      then obtain e where e: "res = Inl e" "is_no_rows e \<or> pg_code e = Some ''23505''" by blast
      obtain res2 s2 where g2: "GetTaskByIdempotencyKey env key s' = (res2, s2)" by fastforce
      have c: "CreateTask env req (store g) = (res2, s2)"
        using e by (auto simp: CreateTask_def k Inr q g2)
      have re: "goes env c we items ([Post (Refetching now key)], g\<lparr>store := s'\<rparr>)
          ([Post Posted], finish_create env (pg_handler env c) now res2 (g\<lparr>store := s2\<rparr>))"
        by (rule goes_step [OF prod.collapse [symmetric]])
          (use respond_goes [of env c we items now res2 "g\<lparr>store := s2\<rparr>"] in \<open>simp_all add: g2\<close>)
      show ?thesis
        by (rule goes_step [OF prod.collapse [symmetric]]) (use e re in \<open>simp_all add: k Inr q c\<close>)
    next
      case False
      let ?res = "case res of Inl e \<Rightarrow> Inl (Wrapped ''repository: failed to insert task: '' e) | Inr t \<Rightarrow> Inr t"
      have c: "CreateTask env req (store g) = (?res, s')"
        "post_step env (pg_handler env c) (Posting now req) g = respond now ?res (g\<lparr>store := s'\<rparr>)"
        using False by (cases res; simp add: CreateTask_def k Inr q)+
      show ?thesis
        by (rule goes_step [OF prod.collapse [symmetric]])
          (use respond_goes [of env c we items now ?res "g\<lparr>store := s'\<rparr>"] in
            \<open>simp_all only: thread_step.simps c beats_of.simps prod.case fst_apfst snd_apfst\<close>)
    qed
  qed
qed

lemma handler_goes:
  assumes "json_Decode env (r_body r) = Inr req" and "validateCreateTaskRequest req = None"
  shows "goes env c we items ([Post (Posting now req)], g)
    ([Post Posted], snd (Handler_CreateTask env (pg_handler env c) now r (w, g)))"
  unfolding handler_finish [OF assms] by (rule create_goes)

section \<open>Passes\<close>

lemma goes_reclaim:
  "goes env c we items ([Reclaim_pass (fst (requeuer_step env (pg_requeuer env c) ph w))],
     snd (requeuer_step env (pg_requeuer env c) ph w)) p \<Longrightarrow>
   goes env c we items ([Reclaim_pass ph], w) p"
  by (rule goes_step [OF prod.collapse [symmetric]]) simp_all

lemma goes_schedule:
  "goes env c we items ([Schedule_pass (fst (scheduler_step env (NewScheduler (NewPostgresTaskRepo env) c) ph w))],
     snd (scheduler_step env (NewScheduler (NewPostgresTaskRepo env) c) ph w)) p \<Longrightarrow>
   goes env c we items ([Schedule_pass ph], w) p"
  by (rule goes_step [OF prod.collapse [symmetric]]) simp_all

lemma requeue_one_goes:
  "goes env c we items ([Reclaim_pass (Requeuing (task # tasks))], w)
     ([Reclaim_pass (Requeuing tasks)], requeue_one env (pg_requeuer env c) task w)"
proof -
  let ?rq = "pg_requeuer env c"
  obtain res s' where q: "repo_RequeueTask (rq_repo ?rq) (ID task) staleLockThreshold (store w) = (res, s')"
    by fastforce
  show ?thesis
  proof (cases "res = Inr True")
    case True
    have "goes env c we items ([Reclaim_pass (Repushing task tasks)], w\<lparr>store := s'\<rparr>)
        ([Reclaim_pass (Requeuing tasks)], requeue_one env ?rq task w)"
      by (rule goes_step [OF prod.collapse [symmetric]])
        (simp_all add: requeue_one_def q True Let_def split: prod.split option.split)
    then show ?thesis
      by (rule goes_step [where t' = "Reclaim_pass (Repushing task tasks)" and w' = "w\<lparr>store := s'\<rparr>", rotated 2])
        (simp_all add: q True)
  next
    case False
    then have "requeuer_step env ?rq (Requeuing (task # tasks)) w =
        (Requeuing tasks, requeue_one env ?rq task w)"
      by (cases res) (auto simp: requeue_one_def q Let_def)
    then show ?thesis by - (rule goes_reclaim, simp)
  qed
qed

lemma requeue_all_goes:
  "goes env c we items ([Reclaim_pass (Requeuing tasks)], w)
     ([Reclaim_pass (Requeuing [])], requeue_all env (pg_requeuer env c) tasks w)"
proof (induction tasks arbitrary: w)
  case Nil
  then show ?case by simp
next
  case (Cons task tasks)
  from goes_trans [OF requeue_one_goes Cons.IH] show ?case by simp
qed

lemma Requeuer_goes:
  "goes env c we items ([Reclaim_pass Scanning], w)
     ([Reclaim_pass (Requeuing [])], Requeuer_runOnce env (pg_requeuer env c) w)"
proof -
  let ?rq = "pg_requeuer env c"
  obtain tasks e s' where q: "repo_GetStaleInProgressTasks (rq_repo ?rq) staleLockThreshold (store w) = ((tasks, e), s')"
    by (metis prod.collapse)
  have "goes env c we items ([Reclaim_pass (fst (requeuer_step env ?rq Scanning w))],
        snd (requeuer_step env ?rq Scanning w))
      ([Reclaim_pass (Requeuing [])], Requeuer_runOnce env ?rq w)"
    using requeue_all_goes [of env c we items tasks "log (LogWarn ''requeue: found stale tasks'') (w\<lparr>store := s'\<rparr>)"]
    by (auto simp: Requeuer_runOnce_def q Let_def split: option.split)
  then show ?thesis by (rule goes_reclaim)
qed

lemma schedule_all_goes:
  "goes env c we items ([Schedule_pass (Pushing tasks)], w)
     ([Schedule_pass (Pushing [])], schedule_all env (NewScheduler (NewPostgresTaskRepo env) c) tasks w)"
proof (induction tasks arbitrary: w)
  case Nil
  then show ?case by simp
next
  case (Cons task tasks)
  show ?case
    by (rule goes_step [where t' = "Schedule_pass (Pushing tasks)"
        and w' = "schedule_one env (NewScheduler (NewPostgresTaskRepo env) c) task w"])
      (use Cons.IH in simp_all)
qed

lemma Scheduler_goes:
  "goes env c we items ([Schedule_pass Querying], w)
     ([Schedule_pass (Pushing [])], Scheduler_runOnce env (NewScheduler (NewPostgresTaskRepo env) c) w)"
proof -
  let ?sc = "NewScheduler (NewPostgresTaskRepo env) c"
  obtain tasks e s' where q: "repo_GetPendingScheduledTasks (sc_repo ?sc) (store w) = ((tasks, e), s')"
    by (metis prod.collapse)
  have "goes env c we items ([Schedule_pass (fst (scheduler_step env ?sc Querying w))],
        snd (scheduler_step env ?sc Querying w))
      ([Schedule_pass (Pushing [])], Scheduler_runOnce env ?sc w)"
    using schedule_all_goes [of env c we items tasks "log (LogInfo ''scheduler: enqueueing due tasks'') (w\<lparr>store := s'\<rparr>)"]
    by (auto simp: Scheduler_runOnce_def q Let_def split: option.split)
  then show ?thesis by (rule goes_schedule)
qed

section \<open>The loop of a worker\<close>

lemma goes_work:
  assumes "worker_step env we wid p w = (p', w')" and "beats_of (Work wid p) = []"
  shows "goes env c we items (Work wid p # ts, w) (Work wid p' # ts, w')"
  using goes_first [of env c we "Work wid p" w "Work wid p'" w' items ts] assms by simp

definition after :: "'a result \<Rightarrow> worker_phase" where
  "after res = (case res of Inl e \<Rightarrow> Gone | Inr x \<Rightarrow> Receiving)"

text \<open>The heartbeats of a task, each sent before the next, and its result.\<close>

lemma beats_goes:
  "\<exists>es. list_all (\<lambda>t. t = Ended) es \<and>
     goes env c we items (Work wid (Working tid task n res) # ts, w)
       (Work wid (Working tid task 0 res) # ts @ es, heartbeats env we wid tid n w)"
proof (induction n arbitrary: w ts)
  case 0
  then show ?case by (auto intro: exI [where x = "[]"])
next
  case (Suc n)
  let ?w = "snd (pool_query env (with_id we tid (\<lambda>i. worker_heartbeat i wid)) w)"
  have "goes env c we items (Work wid (Working tid task (Suc n) res) # ts, w)
      (Work wid (Working tid task n res) # ts @ [Beat wid tid], w)"
    using goes_first [of env c we "Work wid (Working tid task (Suc n) res)" w] by simp
  moreover have "goes env c we items (Work wid (Working tid task n res) # ts @ [Beat wid tid], w)
      (Work wid (Working tid task n res) # ts @ [Ended], ?w)"
    using goes_beat [of env c we items "Work wid (Working tid task n res) # ts"] by simp
  moreover obtain es where "list_all (\<lambda>t. t = Ended) es"
    "goes env c we items (Work wid (Working tid task n res) # ts @ [Ended], ?w)
       (Work wid (Working tid task 0 res) # (ts @ [Ended]) @ es, heartbeats env we wid tid n ?w)"
    using Suc.IH by blast
  ultimately show ?case
    by (intro exI [where x = "Ended # es"]) (auto intro: goes_trans)
qed

lemma next_task_settle:
  "next_task p = (after (fst (settle p)), snd (settle p))"
  by (simp add: next_task_def settle_def after_def split: prod.split sum.split)

lemma record_result_goes:
  "goes env c we items (Work wid (Working tid task 0 res) # ts, w)
     (Work wid (after (fst (handle_result env we wid tid task res w))) # ts,
      snd (handle_result env we wid tid task res w))"
proof (cases "verdict task res = RETRY")
  case False
  then have "record_result env we wid tid task res w =
      (after (fst (handle_result env we wid tid task res w)), snd (handle_result env we wid tid task res w))"
    by (auto simp: verdict_def record_result_def handle_result_def next_task_settle split: if_splits)
  then show ?thesis
    using goes_first [of env c we "Work wid (Working tid task 0 res)" w] by simp
next
  case True
  then have v: "\<not> scheduled res" "\<not> success res" "\<not> c_attempts task \<ge> c_max task"
    by (auto simp: verdict_def split: if_splits)
  obtain x w1 where q: "pool_query env (with_id we tid (\<lambda>i. worker_updateTaskRetry i wid (run_error res))) w = (x, w1)"
    by fastforce
  show ?thesis
  proof (cases "x = Inr True")
    case True
    have "goes env c we items (Work wid (Retrying tid) # ts, w1)
        (Work wid (after (fst (handle_result env we wid tid task res w))) # ts,
         snd (handle_result env we wid tid task res w))"
      using goes_first [of env c we "Work wid (Retrying tid)" w1]
      by (auto simp: handle_result_def v q True after_def split: prod.splits option.splits)
    then show ?thesis
      by (rule goes_step [where t' = "Work wid (Retrying tid)" and w' = w1, rotated 2])
        (simp_all add: record_result_def v q True)
  next
    case False
    then have "record_result env we wid tid task res w =
        (after (fst (handle_result env we wid tid task res w)), snd (handle_result env we wid tid task res w))"
      by (cases x) (auto simp: record_result_def handle_result_def v q after_def)
    then show ?thesis
      using goes_first [of env c we "Work wid (Working tid task 0 res)" w] by simp
  qed
qed

lemma processTask_goes:
  "\<exists>es. list_all (\<lambda>t. t = Ended) es \<and>
     goes env c we items (Work wid (Claiming tid) # ts, w)
       (Work wid (after (fst (processTask env we wid tid w))) # ts @ es, snd (processTask env we wid tid w))"
proof -
  obtain x w1 where q: "pool_query env (with_id we tid (\<lambda>i. worker_claimTask i wid)) w = (x, w1)"
    by fastforce
  have first: "goes env c we items (Work wid (Claiming tid) # ts, w)
      (Work wid (fst (worker_step env we wid (Claiming tid) w)) # ts, snd (worker_step env we wid (Claiming tid) w))"
    by (rule goes_work) (simp_all del: worker_step.simps)
  consider e where "x = Inl e" | "x = Inr None"
    | task where "x = Inr (Some task)" "getAutomation (c_service task) = None"
    | task a where "x = Inr (Some task)" "getAutomation (c_service task) = Some a"
    by (cases x; metis option.exhaust)
  then show ?thesis
  proof cases
    case 1
    with first show ?thesis by (intro exI [where x = "[]"]) (simp add: processTask_def q after_def)
  next
    case 2
    with first show ?thesis by (intro exI [where x = "[]"]) (simp add: processTask_def q after_def)
  next
    case (3 task)
    have "goes env c we items (Work wid (Rejecting tid task) # ts, w1)
        (Work wid (after (fst (processTask env we wid tid w))) # ts, snd (processTask env we wid tid w))"
      using goes_first [of env c we "Work wid (Rejecting tid task)" w1 _ _ items ts]
      by (simp add: processTask_def q 3 next_task_settle)
    with first have "goes env c we items (Work wid (Claiming tid) # ts, w)
        (Work wid (after (fst (processTask env we wid tid w))) # ts, snd (processTask env we wid tid w))"
      by (intro goes_trans [OF first]) (simp add: q 3)
    then show ?thesis by (intro exI [where x = "[]"]) simp
  next
    case (4 task a)
    obtain n run where run: "run_automation we a task = (n, run)" by fastforce
    obtain es where es: "list_all (\<lambda>t. t = Ended) es"
      "goes env c we items (Work wid (Working tid task n (caught run)) # ts, w1)
        (Work wid (Working tid task 0 (caught run)) # ts @ es, heartbeats env we wid tid n w1)"
      using beats_goes by blast
    have "goes env c we items (Work wid (Claiming tid) # ts, w)
        (Work wid (Working tid task n (caught run)) # ts, w1)"
      using first by (simp add: q 4 run)
    note goes_trans [OF goes_trans [OF this es(2)] record_result_goes]
    with es(1) show ?thesis by (intro exI [where x = es]) (simp add: processTask_def q 4 run)
  qed
qed

lemma worker_loop_goes:
  "\<exists>es. list_all (\<lambda>t. t = Ended) es \<and>
     goes env c we items (Work wid Receiving # ts, w)
       (Work wid (after (fst (worker_loop env we wid n w))) # ts @ es, snd (worker_loop env we wid n w))"
proof (induction n arbitrary: w ts)
  case 0
  show ?case by (intro exI [where x = "[]"]) (simp add: after_def)
next
  case (Suc n)
  obtain x q' where b: "brpop we TaskQueueKey (redis w) = (x, q')" by fastforce
  let ?w = "w\<lparr>redis := q'\<rparr>"
  have first: "goes env c we items (Work wid Receiving # ts, w)
      (Work wid (fst (worker_step env we wid Receiving w)) # ts, snd (worker_step env we wid Receiving w))"
    by (rule goes_work) (simp_all del: worker_step.simps)
  consider e where "x = Inl e" | "x = Inr None" | tid where "x = Inr (Some tid)"
    by (cases x; metis option.exhaust)
  then show ?case
  proof cases
    case 1
    with first show ?thesis by (intro exI [where x = "[]"]) (simp add: b after_def)
  next
    case 2
    obtain es where "list_all (\<lambda>t. t = Ended) es"
      "goes env c we items (Work wid Receiving # ts, ?w)
        (Work wid (after (fst (worker_loop env we wid n ?w))) # ts @ es, snd (worker_loop env we wid n ?w))"
      using Suc.IH by blast
    with 2 first show ?thesis by (intro exI [where x = es]) (auto simp: b intro: goes_trans)
  next
    case (3 tid)
    obtain r w2 where p: "processTask env we wid tid ?w = (r, w2)" by fastforce
    obtain es where es: "list_all (\<lambda>t. t = Ended) es"
      "goes env c we items (Work wid (Claiming tid) # ts, ?w) (Work wid (after r) # ts @ es, w2)"
      using processTask_goes [of env c we items wid tid ts ?w] p by auto
    have go: "goes env c we items (Work wid Receiving # ts, w) (Work wid (after r) # ts @ es, w2)"
      using first by (intro goes_trans [OF _ es(2)]) (simp add: b 3)
    show ?thesis
    proof (cases r)
      case (Inl e)
      with go es(1) show ?thesis by (intro exI [where x = es]) (simp add: b 3 p after_def)
    next
      case (Inr u)
      obtain es' where "list_all (\<lambda>t. t = Ended) es'"
        "goes env c we items (Work wid Receiving # ts @ es, w2)
          (Work wid (after (fst (worker_loop env we wid n w2))) # (ts @ es) @ es', snd (worker_loop env we wid n w2))"
        using Suc.IH by blast
      with go es(1) Inr show ?thesis
        by (intro exI [where x = "es @ es'"]) (auto simp: b 3 p after_def intro: goes_trans)
    qed
  qed
qed

end
