(* ===== verification/Concurrent_Liveness.thy ===== *)
theory Concurrent_Liveness
  imports Concurrent_Threads
begin

text \<open>
  Progress of the interleaving: without failures every turn of a thread that has something to
  do uses up some of the work there is, whatever order the threads take turns in; when nobody
  has anything left to do, every task is settled.
\<close>

section \<open>Threads that can go on\<close>

text \<open>The entries in the hands of a worker read back as UUIDs, and what it will write can be
  stored.\<close>

fun fine :: "'q worker_env \<Rightarrow> thread \<Rightarrow> bool" where
  "fine we (Work wid (Claiming tid)) = (uuid_in we tid \<noteq> None)"
| "fine we (Work wid (Rejecting tid task)) = (uuid_in we tid \<noteq> None \<and> varchar_ok (c_service task))"
| "fine we (Work wid (Working tid task n res)) = (uuid_in we tid \<noteq> None \<and> storable_run res)"
| "fine we (Work wid (Retrying tid)) = (uuid_in we tid \<noteq> None)"
| "fine we t = True"

definition readable :: "'q worker_env \<Rightarrow> ('q \<Rightarrow> string \<Rightarrow> string list) \<Rightarrow> (pg, 'q) world \<Rightarrow> bool" where
  "readable we items w \<longleftrightarrow> list_all (\<lambda>v. uuid_in we v \<noteq> None) (pending items (redis w))"

text \<open>The automations' texts can be stored; they fire at most \<open>B\<close> heartbeats.\<close>

definition automations_ok :: "nat \<Rightarrow> 'q worker_env \<Rightarrow> bool" where
  "automations_ok B we \<longleftrightarrow>
     (\<forall>r. fst (universal we r) \<le> B \<and> storable_run (caught (snd (universal we r))))"

lemma automation_run:
  assumes "automations_ok B we" and "run_automation we a task = (n, run)"
  shows "n \<le> B" and "storable_run (caught run)"
proof -
  have "n \<le> B \<and> storable_run (caught run)"
  proof (cases a)
    case TestService
    with assms show ?thesis
      by (auto simp: run_automation_def caught_def storable_run_def no_result_def screenshot_path_def)
  next
    case Universal
    with assms show ?thesis unfolding automations_ok_def run_automation_def
      by (metis automation.simps(14) fst_conv snd_conv)
  next
    case InheritedObject
    with assms show ?thesis
      by (auto simp: run_automation_def caught_def storable_run_def no_result_def screenshot_path_def)
  next
    case InheritedPrototype
    with assms show ?thesis
      by (auto simp: run_automation_def caught_def pg_text_def storable_no_result)
  qed
  then show "n \<le> B" "storable_run (caught run)" by simp_all
qed

lemma claim_row_of:
  assumes "worker_claimTask i wid now rs = (Inr (Some task), rs')"
  obtains r w' where "r \<in> set rs" and "worker_claimable i r" and "task = claimed_row now w' r"
  using assms
  by (auto simp: worker_claimTask_def sql_update_def dest!: filter_head
      split: sum.splits if_splits list.splits)

lemma push_readable:
  assumes "lpush_law c items" and "c TaskQueueKey v (redis w) = (e, q')" and "redis w' = q'"
    and "uuid_in we v \<noteq> None" and "readable we items w"
  shows "readable we items w'"
  using lpush_lawD(2) [OF assms(1,2)] assms(3-5) by (auto simp: readable_def pending_def)

lemma Enqueue_readable:
  assumes "lpush_law c items" and "Enqueue env (NewProducer c) i (redis w) = (e, q')" and "redis w' = q'"
    and "uuid_in we (uuid_String env i) = Some i" and "readable we items w"
  shows "readable we items w'"
proof -
  obtain e' where "c TaskQueueKey (uuid_String env i) (redis w) = (e', q')"
    using Enqueue_lpush [OF assms(2)] by (auto simp: NewProducer_def)
  from push_readable [OF assms(1) this assms(3) _ assms(5)] assms(4) show ?thesis by simp
qed

lemma redis_readable: "redis w' = redis w \<Longrightarrow> readable we items w' = readable we items w"
  by (simp add: readable_def)

lemma record_result_frame:
  assumes "record_result env we wid tid task res w = (p', w')"
  shows "redis w' = redis w" and "p' \<in> {Receiving, Retrying tid, Gone}"
    and "verdict task res \<noteq> RETRY \<Longrightarrow> p' \<in> {Receiving, Gone}"
proof -
  have q: "redis w1 = redis w" if "pool_query env stmt w = (r, w1)" for stmt :: "instant \<Rightarrow> table \<Rightarrow> bool result \<times> table" and r w1
    using pool_query_exec [OF that] by auto
  show "redis w' = redis w" "p' \<in> {Receiving, Retrying tid, Gone}"
    "verdict task res \<noteq> RETRY \<Longrightarrow> p' \<in> {Receiving, Gone}"
    using assms
    by (auto simp: record_result_def next_task_def verdict_def split: if_splits prod.splits sum.splits dest: q)
qed

lemma worker_step_fine:
  assumes st: "worker_step env we wid p w = (p', w')" and env: "fits_env env c we items (Work wid p)"
    and u: "undisturbed (store w)" and t: "table_ok (clock (store w)) (rows (store w))"
    and a: "automations_ok B we" and f: "fine we (Work wid p)" and q: "readable we items w"
  shows "fine we (Work wid p') \<and> readable we items w'"
proof (cases p)
  case Receiving
  obtain r q' where b: "brpop we TaskQueueKey (redis w) = (r, q')" by fastforce
  note law = brpop_lawD [OF fits_envD(4) [OF env], of TaskQueueKey "redis w", unfolded b]
  have w': "redis w' = q'" "p' = (case r of Inl e \<Rightarrow> Gone | Inr None \<Rightarrow> Receiving | Inr (Some v) \<Rightarrow> Claiming v)"
    using st b unfolding Receiving by (auto split: sum.splits option.splits)
  have sub: "set (pending items q') \<subseteq> set (pending items (redis w))"
    using law in_set_butlastD by (auto simp: pending_def split: sum.splits option.splits dest: in_set_butlastD)
  have "fine we (Work wid p')"
    using w'(2) law q by (auto simp: readable_def pending_def list_all_iff split: sum.splits option.splits)
  with sub q show ?thesis by (auto simp: readable_def w'(1) list_all_iff)
next
  case (Claiming tid)
  obtain res w1 where e: "pool_query env (with_id we tid (\<lambda>i. worker_claimTask i wid)) w = (res, w1)"
    by fastforce
  have w': "redis w' = redis w"
    using st e pool_query_exec [OF e] unfolding Claiming by (auto split: sum.splits option.splits prod.splits)
  have "fine we (Work wid p')"
  proof (cases "\<exists>task. res = Inr (Some task)")
    case True
    then obtain task where task: "res = Inr (Some task)" by blast
    obtain i now where "worker_claimTask i wid now (rows (store w)) = (Inr (Some task), rows (store w1))"
      using with_id_ran [OF u e [unfolded task]] by metis
    then obtain r w2 where "r \<in> set (rows (store w))" "task = claimed_row now w2 r" by (rule claim_row_of)
    with t have "varchar_ok (c_service task)" by (auto simp: table_ok_def list_all_iff row_ok_def)
    with st e task f automation_run(2) [OF a] show ?thesis
      unfolding Claiming by (auto split: option.splits prod.splits)
  next
    case False
    with st e show ?thesis unfolding Claiming by (auto split: sum.splits option.splits prod.splits)
  qed
  with q show ?thesis by (simp add: redis_readable [OF w'])
next
  case (Rejecting tid task)
  obtain res w1 where e: "pool_query env (with_id we tid (\<lambda>i. worker_updateTaskDeadLetter i wid
      (Some (''No automation found for service: '' @ c_service task)) None)) w = (res, w1)" by fastforce
  have "w' = w1" "p' \<in> {Receiving, Gone}"
    using st e unfolding Rejecting by (auto simp: next_task_def split: sum.splits)
  moreover have "redis w1 = redis w" using pool_query_exec [OF e] by auto
  ultimately show ?thesis using q redis_readable [of w' w] by auto
next
  case (Working tid task n res)
  show ?thesis
  proof (cases n)
    case 0
    with st Working have "record_result env we wid tid task res w = (p', w')" by simp
    from record_result_frame [OF this] f Working q redis_readable [of w' w] show ?thesis by auto
  next
    case (Suc m)
    with st f q Working show ?thesis by auto
  qed
next
  case (Retrying tid)
  obtain e q' where e: "lpush we TaskQueueKey tid (redis w) = (e, q')" by fastforce
  have w': "redis w' = q'" "p' \<in> {Receiving, Gone}"
    using st e unfolding Retrying by (auto split: option.splits)
  from push_readable [OF fits_envD(3) [OF env] e w'(1) _ q] f w'(2) Retrying show ?thesis by auto
next
  case Gone
  with st q show ?thesis by auto
qed

lemma post_redis:
  assumes "post_step env h p g = (p', g')" and "\<nexists>task. p = Announcing task"
  shows "redis g' = redis g"
proof (cases p)
  case (Posting now req)
  show ?thesis using assms(1) unfolding Posting
    by (auto dest!: respond_frame split: sum.splits prod.splits if_splits)
next
  case (Refetching now key)
  show ?thesis using assms(1) unfolding Refetching
    by (auto dest!: respond_frame split: prod.splits)
qed (use assms in auto)

lemma thread_step_fine:
  assumes st: "thread_step env c we t w = (t', w')" and env: "fits_env env c we items t"
    and u: "undisturbed (store w)" and ok: "table_ok (clock (store w)) (rows (store w))"
    and a: "automations_ok B we" and f: "fine we t" and q: "readable we items w"
  shows "fine we t' \<and> list_all (fine we) (beats_of t) \<and> readable we items w'"
proof -
  have b: "list_all (fine we) (beats_of t)" by (cases t rule: beats_of.cases) simp_all
  note law = fits_envD(1,2) [OF env]
  from st have "fine we t' \<and> readable we items w'"
  proof (cases rule: thread_step_cases)
    case (post p p')
    have "readable we items w'"
    proof (cases "\<exists>task. p = Announcing task")
      case True
      then obtain task where p: "p = Announcing task" by blast
      obtain e q' where e: "Enqueue env (NewProducer c) (ID task) (redis w) = (e, q')" by fastforce
      have "redis w' = q'"
        using post(3) enqueue_created_redis [of env _ task w e q'] e by (auto simp: p NewTaskHandler_def)
      from Enqueue_readable [OF law(1) e this law(2) q] show ?thesis .
    next
      case False
      from redis_readable [OF post_redis [OF post(3) this]] q show ?thesis by simp
    qed
    with post(2) show ?thesis by simp
  next
    case (reclaim p p')
    have "readable we items w'"
    proof (cases p rule: requeuer_phase_cases)
      case (push task tasks)
      obtain e q' where e: "Enqueue env (NewProducer c) (ID task) (redis w) = (e, q')" by fastforce
      have "redis w' = q'" using reclaim(3) e by (auto simp: push requeuer_parts split: option.splits)
      from Enqueue_readable [OF law(1) e this law(2) q] show ?thesis .
    qed (use reclaim(3) q in \<open>auto simp: requeuer_parts Let_def readable_def log_def
        split: prod.splits option.splits sum.splits if_splits\<close>)
    with reclaim(2) show ?thesis by simp
  next
    case (schedule p p')
    have "readable we items w'"
    proof (cases p rule: scheduler_phase_cases)
      case (one task tasks)
      obtain e q' where e: "Enqueue env (NewProducer c) (ID task) (redis w) = (e, q')" by fastforce
      have "redis w' = q'"
        using schedule(3) e by (auto simp: one schedule_one_def requeuer_parts split: option.splits)
      from Enqueue_readable [OF law(1) e this law(2) q] show ?thesis .
    qed (use schedule(3) q in \<open>auto simp: requeuer_parts Let_def readable_def log_def
        split: prod.splits option.splits if_splits\<close>)
    with schedule(2) show ?thesis by simp
  next
    case (work wid p p')
    with worker_step_fine [OF work(3) _ u ok a _ q] env f show ?thesis by simp
  next
    case (beat wid tid res)
    have "redis w' = redis w" using pool_query_exec [OF beat(3)] by auto
    from redis_readable [OF this] beat(2) q show ?thesis by simp
  next
    case ended
    with q show ?thesis by simp
  qed
  with b show ?thesis by simp
qed

section \<open>The attempts and the tries the tasks have left\<close>

definition counts :: "table \<Rightarrow> (int \<times> int) list" where
  "counts rs = map (\<lambda>r. (c_attempts r, c_max r)) rs"

definition tries :: "table \<Rightarrow> nat" where
  "tries rs = sum_list (map tries_left rs)"

definition attempts_le :: "nat \<Rightarrow> table \<Rightarrow> bool" where
  "attempts_le M rs \<longleftrightarrow> list_all (\<lambda>r. c_attempts r \<le> int M) rs"

fun keeps_counts :: "db_action \<Rightarrow> bool" where
  "keeps_counts (Insert i key svc email p sched) = False"
| "keeps_counts (Claim i w) = False"
| "keeps_counts (WClaim i w) = False"
| "keeps_counts a = True"

lemma counts_tries: "counts rs' = counts rs \<Longrightarrow> tries rs' = tries rs"
proof -
  assume c: "counts rs' = counts rs"
  have t: "tries xs = sum_list (map (\<lambda>p. nat (snd p - fst p)) (counts xs))" for xs
    by (simp add: tries_def counts_def tries_left_def [abs_def] comp_def)
  show "tries rs' = tries rs" unfolding t c ..
qed

lemma counts_attempts: "counts rs' = counts rs \<Longrightarrow> attempts_le M rs' = attempts_le M rs"
proof -
  assume c: "counts rs' = counts rs"
  have t: "attempts_le M xs = list_all (\<lambda>p. fst p \<le> int M) (counts xs)" for xs
    by (simp add: attempts_le_def counts_def list_all_iff)
  show ?thesis unfolding t c ..
qed

lemma counts_length: "counts rs' = counts rs \<Longrightarrow> length rs' = length rs"
  unfolding counts_def by (metis length_map)

lemma attempts_le_mono: "attempts_le M rs \<Longrightarrow> M \<le> M' \<Longrightarrow> attempts_le M' rs"
  by (auto simp: attempts_le_def list_all_iff)

lemma row_update_counts:
  "row_update now a r r' \<Longrightarrow> keeps_counts a \<Longrightarrow> c_attempts r' = c_attempts r \<and> c_max r' = c_max r"
  by (cases a) (auto simp: row_transformers)

lemma act_counts:
  assumes "keeps_counts a"
  shows "counts (apply_action J now a rs) = counts rs"
proof -
  have "a \<noteq> Insert i key svc email p sched" for i key svc email p sched using assms by auto
  then obtain f where f: "apply_action J now a rs = map f rs"
    "\<forall>r\<in>set rs. f r = r \<or> row_update now a r (f r)"
    using apply_action_rows by blast
  then show ?thesis using row_update_counts [OF _ assms] unfolding counts_def f(1) by fastforce
qed

text \<open>A statement that is not an insert or a claim.\<close>

lemma exec_counts:
  assumes "undisturbed s" and "exec env stmt s = (res, s')"
    and "\<And>m now rs. snd (stmt m now rs) = rs \<or>
      (\<exists>a. keeps_counts a \<and> snd (stmt m now rs) = apply_action J now a rs)"
  shows "counts (rows s') = counts (rows s)"
  using assms(1,2)
proof (cases rule: exec_cases)
  case (executed now)
  with assms(3) [of "moment_of s" now "rows s"] act_counts [of _ J now "rows s"] show ?thesis by fastforce
next
  case (lost e now msg)
  with assms(3) [of "moment_of s" now "rows s"] act_counts [of _ J now "rows s"] show ?thesis by fastforce
qed simp

lemma with_id_counts:
  assumes "undisturbed (store w)" and q: "pool_query env (with_id we tid stmt) w = (res, w')"
    and act: "\<And>i now rs. \<exists>a. keeps_counts a \<and> snd (stmt i now rs) = apply_action (jsonb_in env) now a rs"
  shows "counts (rows (store w')) = counts (rows (store w))"
proof -
  obtain s' where e: "exec env (\<lambda>m. with_id we tid stmt) (store w) = (res, s')" and w': "w' = w\<lparr>store := s'\<rparr>"
    using pool_query_exec [OF q] by blast
  have "snd (with_id we tid stmt now rs) = rs \<or>
      (\<exists>a. keeps_counts a \<and> snd (with_id we tid stmt now rs) = apply_action (jsonb_in env) now a rs)" for now rs
    using act by (auto simp: with_id_def split: option.split)
  from exec_counts [OF assms(1) e this] show ?thesis by (simp add: w')
qed

lemma write_counts:
  assumes "result_write act wid stmt" and "undisturbed (store w)"
    and "pool_query env (with_id we tid stmt) w = (res, w')"
  shows "counts (rows (store w')) = counts (rows (store w))"
proof -
  have "\<exists>a. keeps_counts a \<and> snd (stmt i now rs) = apply_action (jsonb_in env) now a rs" for i now rs
    using assms(1) by (intro exI [of _ "act i"]) (auto simp: result_write.simps)
  from with_id_counts [OF assms(2,3) this] show ?thesis .
qed

lemma record_result_counts:
  assumes u: "undisturbed (store w)" and r: "record_result env we wid tid task res w = (p', w')"
  shows "counts (rows (store w')) = counts (rows (store w))"
proof -
  have n: "counts (rows (store w')) = counts (rows (store w))"
    if "result_write act wid stmt" "next_task (pool_query env (with_id we tid stmt) w) = (p', w')" for act stmt
    using that(2) write_counts [OF that(1) u] by (auto simp: next_task_def split: prod.splits sum.splits)
  consider "scheduled res" | "\<not> scheduled res" "success res"
    | "\<not> scheduled res" "\<not> success res" "c_attempts task \<ge> c_max task"
    | "\<not> scheduled res" "\<not> success res" "\<not> c_attempts task \<ge> c_max task" by linarith
  then show ?thesis
  proof cases
    case 1
    with r n [OF result_writes(1)] show ?thesis by (simp add: record_result_def)
  next
    case 2
    with r n [OF result_writes(2)] show ?thesis by (simp add: record_result_def)
  next
    case 3
    with r n [OF result_writes(3)] show ?thesis by (simp add: record_result_def)
  next
    case 4
    with r write_counts [OF result_writes(4) u] show ?thesis
      by (auto simp: record_result_def split: prod.splits sum.splits)
  qed
qed

lemma requeue_counts:
  assumes "undisturbed s" and "RequeueTask env i threshold s = (res, s')"
  shows "counts (rows s') = counts (rows s)"
proof -
  let ?stmt = "\<lambda>m now rs. case pg_interval (interval_in env) (duration_String threshold) of
    Inl e \<Rightarrow> (Inl e, rs) | Inr th \<Rightarrow> sql_requeue i th now rs"
  obtain res0 where e: "exec env ?stmt s = (res0, s')"
    using assms(2) by (auto simp: RequeueTask_def split: prod.splits sum.splits)
  have "snd (?stmt m now rs) = rs \<or>
      (\<exists>a. keeps_counts a \<and> snd (?stmt m now rs) = apply_action (jsonb_in env) now a rs)" for m now rs
    by (cases "pg_interval (interval_in env) (duration_String threshold)")
      (auto intro: exI [where x = "Requeue i th" for th])
  from exec_counts [OF assms(1) e this] show ?thesis .
qed

text \<open>The claim uses up a try of its task, if it has one left.\<close>

lemma claim_rows:
  obtains "snd (worker_claimTask i wid now rs) = rs"
  | w' where "snd (worker_claimTask i wid now rs) =
      map (\<lambda>r. if worker_claimable i r then claimed_row now w' r else r) rs"
  by (cases "pg_varchar255 wid"; cases "list_all (\<lambda>r. worker_claimable i r \<longrightarrow> attempts_room r) rs")
    (auto simp: worker_claimTask_def sql_update_def)

lemma tries_left_claimed: "tries_left (claimed_row now w r) \<le> tries_left r"
  by (simp add: tries_left_def)

lemma claim_tries:
  "length (snd (worker_claimTask i wid now rs)) = length rs"
  "tries (snd (worker_claimTask i wid now rs)) \<le> tries rs"
  "attempts_le M rs \<Longrightarrow> attempts_le (Suc M) (snd (worker_claimTask i wid now rs))"
proof -
  have "length rs' = length rs \<and> tries rs' \<le> tries rs \<and> (attempts_le M rs \<longrightarrow> attempts_le (Suc M) rs')"
    if "rs' = map (\<lambda>r. if worker_claimable i r then claimed_row now w' r else r) rs" for rs' w'
    unfolding that tries_def attempts_le_def
    using tries_left_claimed by (auto simp: list_all_iff comp_def intro!: sum_list_mono)
  then show "length (snd (worker_claimTask i wid now rs)) = length rs"
    "tries (snd (worker_claimTask i wid now rs)) \<le> tries rs"
    "attempts_le M rs \<Longrightarrow> attempts_le (Suc M) (snd (worker_claimTask i wid now rs))"
    by (cases rule: claim_rows [of i wid now rs]; auto intro: attempts_le_mono)+
qed

lemma claim_hit_tries:
  assumes "worker_claimTask i wid now rs = (Inr (Some task), rs')" and "c_attempts task < c_max task"
  shows "tries rs' < tries rs"
proof -
  obtain r w' where r: "r \<in> set rs" "worker_claimable i r" "task = claimed_row now w' r"
    using claim_row_of [OF assms(1)] .
  have rs': "\<exists>w'. rs' = map (\<lambda>r. if worker_claimable i r then claimed_row now w' r else r) rs"
    using assms(1) by (auto simp: worker_claimTask_def sql_update_def split: sum.splits if_splits)
  then obtain w2 where rs': "rs' = map (\<lambda>r. if worker_claimable i r then claimed_row now w2 r else r) rs" ..
  obtain ys zs where rs: "rs = ys @ r # zs" using split_list [OF r(1)] by blast
  have le: "sum_list (map tries_left (map (\<lambda>r. if worker_claimable i r then claimed_row now w2 r else r) xs)) \<le>
      sum_list (map tries_left xs)" for xs
    using tries_left_claimed by (auto simp: comp_def intro!: sum_list_mono)
  have "tries_left (claimed_row now w2 r) < tries_left r"
    using assms(2) r(3) by (simp add: tries_left_def)
  with le [of ys] le [of zs] r(2) show ?thesis
    unfolding rs' tries_def rs by (simp add: comp_def)
qed

section \<open>The work that is left\<close>

text \<open>
  \<open>B\<close> bounds the heartbeats of one run of an automation and \<open>R\<close> the rows there can be.  An
  entry in the list costs \<open>3 + 2 * B\<close> turns, a try of a task \<open>4 + 2 * B\<close>.
\<close>

fun weight :: "nat \<Rightarrow> nat \<Rightarrow> thread \<Rightarrow> nat" where
  "weight B R (Post (Posting now req)) = 18 + 8 * B"
| "weight B R (Post (Refetching now key)) = 5 + 2 * B"
| "weight B R (Post (Announcing task)) = 4 + 2 * B"
| "weight B R (Post Posted) = 0"
| "weight B R (Reclaim_pass Scanning) = 1 + (6 + 2 * B) * R"
| "weight B R (Reclaim_pass (Requeuing tasks)) = (6 + 2 * B) * length tasks"
| "weight B R (Reclaim_pass (Repushing task tasks)) = 5 + 2 * B + (6 + 2 * B) * length tasks"
| "weight B R (Schedule_pass Querying) = 1 + (6 + 2 * B) * R"
| "weight B R (Schedule_pass (Pushing tasks)) = (6 + 2 * B) * length tasks"
| "weight B R (Work wid Receiving) = 0"
| "weight B R (Work wid (Claiming tid)) = 2 + 2 * B"
| "weight B R (Work wid (Rejecting tid task)) = 1"
| "weight B R (Work wid (Working tid task n res)) =
     2 * n + (if verdict task res = RETRY then 5 + 2 * B else 1)"
| "weight B R (Work wid (Retrying tid)) = 4 + 2 * B"
| "weight B R (Work wid Gone) = 0"
| "weight B R (Beat wid tid) = 1"
| "weight B R Ended = 0"

definition backlog :: "nat \<Rightarrow> ('q \<Rightarrow> string \<Rightarrow> string list) \<Rightarrow> (pg, 'q) world \<Rightarrow> nat" where
  "backlog B items w =
     (3 + 2 * B) * length (pending items (redis w)) + (4 + 2 * B) * tries (rows (store w))"

text \<open>The turns that change nothing: of a thread that has ended, and of a worker whose list is
  empty.\<close>

fun idle :: "('q \<Rightarrow> string \<Rightarrow> string list) \<Rightarrow> thread \<Rightarrow> (pg, 'q) world \<Rightarrow> bool" where
  "idle items (Post Posted) w = True"
| "idle items (Reclaim_pass (Requeuing [])) w = True"
| "idle items (Schedule_pass (Pushing [])) w = True"
| "idle items (Work wid Receiving) w = (pending items (redis w) = [])"
| "idle items (Work wid Gone) w = True"
| "idle items Ended w = True"
| "idle items t w = False"

fun inserts :: "thread \<Rightarrow> nat" where
  "inserts (Post (Posting now req)) = 1"
| "inserts t = 0"

text \<open>What a turn does to the work.\<close>

definition progress ::
  "nat \<Rightarrow> nat \<Rightarrow> ('q \<Rightarrow> string \<Rightarrow> string list) \<Rightarrow> thread \<Rightarrow> (pg, 'q) world \<Rightarrow> thread \<Rightarrow> (pg, 'q) world \<Rightarrow> bool" where
  "progress B R items t w t' w' \<longleftrightarrow>
     backlog B items w' + weight B R t' + sum_list (map (weight B R) (beats_of t)) <
       backlog B items w + weight B R t \<and>
     length (rows (store w')) + inserts t' \<le> length (rows (store w)) + inserts t \<and>
     (\<forall>M. attempts_le M (rows (store w)) \<longrightarrow> attempts_le (Suc M) (rows (store w')))"

lemma progressI:
  assumes "counts (rows (store w')) = counts (rows (store w))" and "beats_of t = []" and "inserts t' \<le> inserts t"
    and "(3 + 2 * B) * length (pending items (redis w')) + weight B R t' <
      (3 + 2 * B) * length (pending items (redis w)) + weight B R t"
  shows "progress B R items t w t' w'"
  using assms counts_tries [OF assms(1)] counts_length [OF assms(1)] counts_attempts [OF assms(1)]
  by (auto simp: progress_def backlog_def intro: attempts_le_mono)

text \<open>A push adds at most one entry.\<close>

lemma push_length:
  "lpush_law c items \<Longrightarrow> c TaskQueueKey v (redis w) = (e, q') \<Longrightarrow> redis w' = q' \<Longrightarrow>
   length (pending items (redis w')) \<le> Suc (length (pending items (redis w)))"
  by (drule (1) lpush_lawD(2)) (auto simp: pending_def)

lemma Enqueue_length:
  assumes "lpush_law c items" and "Enqueue env (NewProducer c) i (redis w) = (e, q')" and "redis w' = q'"
  shows "length (pending items (redis w')) \<le> Suc (length (pending items (redis w)))"
proof -
  have "lpush_law (client (NewProducer c)) items" using assms(1) by (simp add: NewProducer_def)
  from Enqueue_any [OF this assms(2)] assms(3) show ?thesis by auto
qed

lemma push_cost:
  assumes "n' \<le> Suc n" and "x + (3 + 2 * B) < (y::nat)"
  shows "(3 + 2 * B) * n' + x < (3 + 2 * B) * n + y"
proof -
  have "(3 + 2 * B) * n' \<le> (3 + 2 * B) * Suc n" using assms(1) by (rule mult_le_mono2)
  with assms(2) show ?thesis unfolding mult_Suc_right by linarith
qed

section \<open>Every turn uses up work\<close>

lemma insert_counts:
  assumes u: "undisturbed s"
    and q: "query_row env (\<lambda>m. sql_insert (jsonb_in env) (m_uuid m) key svc email p sched) s = (res, s')"
  shows "rows s' = rows s \<or> (\<exists>r. rows s' = rows s @ [r] \<and> c_attempts r = 0 \<and> tries_left r = 3)"
proof -
  let ?stmt = "\<lambda>m. sql_insert (jsonb_in env) (m_uuid m) key svc email p sched"
  have ins: "snd (?stmt m now rs) = rs \<or> (\<exists>r. snd (?stmt m now rs) = rs @ [r] \<and> c_attempts r = 0 \<and> tries_left r = 3)"
    for m now rs
    by (auto simp: sql_insert_def insert_row_def default_row_def tries_left_def split: sum.split)
  obtain x where "exec env ?stmt s = (x, s')" using query_row_sndD [OF q] by (metis prod.collapse)
  with u show ?thesis
  proof (cases rule: exec_cases)
    case (executed now)
    with ins [of "moment_of s" now "rows s"] show ?thesis by simp
  next
    case (lost e now msg)
    with ins [of "moment_of s" now "rows s"] show ?thesis by simp
  qed simp
qed

lemma respond_phase:
  "respond now res g = (p', g') \<Longrightarrow>
   weight B R (Post p') \<le> 4 + 2 * B \<and> inserts (Post p') = 0 \<and> store g' = store g \<and> redis g' = redis g"
  by (auto simp: respond_def Let_def split: sum.splits if_splits)

lemma post_progress:
  assumes st: "post_step env (NewTaskHandler (NewPostgresTaskRepo env) (NewProducer c)) p w = (p', w')"
    and law: "lpush_law c items" and u: "undisturbed (store w)" and i: "\<not> idle items (Post p) w"
  shows "progress B R items (Post p) w (Post p') w'"
proof (cases p)
  case (Posting now req)
  have q: "redis w' = redis w" by (rule post_redis [OF st]) (simp add: Posting)
  have p': "weight B R (Post p') \<le> 5 + 2 * B" "inserts (Post p') = 0"
    using st unfolding Posting
    by (auto dest!: respond_phase [where B = B and R = R] split: sum.splits prod.splits if_splits)
  have rs: "rows (store w') = rows (store w) \<or>
      (\<exists>r. rows (store w') = rows (store w) @ [r] \<and> c_attempts r = 0 \<and> tries_left r = 3)"
    using st unfolding Posting
    by (auto dest!: respond_frame dest: insert_counts [OF u] split: sum.splits prod.splits if_splits)
  have "attempts_le (Suc M) (rows (store w'))" if "attempts_le M (rows (store w))" for M
    using rs attempts_le_mono [OF that, of "Suc M"] by (auto simp: attempts_le_def)
  with rs p' q show ?thesis
    by (auto simp: Posting progress_def backlog_def tries_def algebra_simps)
next
  case (Refetching now key)
  have q: "redis w' = redis w" by (rule post_redis [OF st]) (simp add: Refetching)
  have p': "weight B R (Post p') \<le> 4 + 2 * B" "inserts (Post p') = 0"
    using st unfolding Refetching
    by (auto dest!: respond_phase [where B = B and R = R] split: prod.splits)
  have "rows (store w') = rows (store w)"
    using st by_key_rows [OF u] unfolding Refetching by (auto dest!: respond_frame split: prod.splits)
  with p' q show ?thesis by (intro progressI) (auto simp: Refetching)
next
  case (Announcing task)
  obtain e q' where e: "Enqueue env (NewProducer c) (ID task) (redis w) = (e, q')" by fastforce
  have w': "w' = enqueue_created env (NewTaskHandler (NewPostgresTaskRepo env) (NewProducer c)) task w" "p' = Posted"
    using st Announcing by simp_all
  have "redis w' = q'" unfolding w' by (rule enqueue_created_redis) (simp add: NewTaskHandler_def e)
  from Enqueue_length [OF law e this] show ?thesis
    unfolding Announcing w'(2) by (intro progressI push_cost) (simp_all add: w'(1))
next
  case Posted
  with i show ?thesis by simp
qed

text \<open>A scan returns no more tasks than there are rows.\<close>

lemma query_rows_length:
  assumes "undisturbed s" and "query_rows env q m stmt s = ((ts, None), s')"
    and "\<And>m now rs. case fst (stmt m now rs) of Inl e \<Rightarrow> True | Inr xs \<Rightarrow> length xs \<le> length rs"
  shows "length ts \<le> length (rows s)"
proof -
  obtain rs where rs: "stmt (moment_of s) (clock s') (snd (before env s)) = (Inr rs, rows s')"
    "ts = map scan_task (sort_key (\<lambda>r. m_rank (moment_of s) (c_id r)) rs)"
    by (rule query_rows_tasks [OF assms(2)])
  have "snd (before env s) = rows s" using assms(1) by (simp add: before_def undisturbed_def Let_def)
  with rs assms(3) [where m = "moment_of s" and now = "clock s'" and rs = "rows s"] show ?thesis by simp
qed

lemma stale_count:
  "undisturbed s \<Longrightarrow> GetStaleInProgressTasks env th s = ((ts, None), s') \<Longrightarrow> length ts \<le> length (rows s)"
  unfolding GetStaleInProgressTasks_def
  by (erule query_rows_length, assumption) (auto simp: sql_stale_def split: sum.split)

lemma due_count:
  "undisturbed s \<Longrightarrow> GetPendingScheduledTasks env s = ((ts, None), s') \<Longrightarrow> length ts \<le> length (rows s)"
  unfolding GetPendingScheduledTasks_def
  by (erule query_rows_length, assumption) (auto simp: sql_due_def)

lemma reclaim_progress:
  assumes st: "requeuer_step env (pg_requeuer env c) p w = (p', w')"
    and law: "lpush_law c items" and u: "undisturbed (store w)" and i: "\<not> idle items (Reclaim_pass p) w"
    and R: "length (rows (store w)) \<le> R"
  shows "progress B R items (Reclaim_pass p) w (Reclaim_pass p') w'"
proof (cases p rule: requeuer_phase_cases)
  case scan
  obtain tasks e s' where g: "GetStaleInProgressTasks env staleLockThreshold (store w) = ((tasks, e), s')"
    by (metis prod.collapse)
  have rs: "rows s' = rows (store w)" using stale_rows_same [OF u g] .
  have len: "e = None \<Longrightarrow> length tasks \<le> R"
    using stale_count [OF u] g R by fastforce
  have "redis w' = redis w" "rows (store w') = rows (store w)" "p' = Requeuing (if e = None then tasks else [])"
    using st g rs unfolding scan by (auto simp: requeuer_parts Let_def log_def split: option.splits if_splits)
  with len show ?thesis
    unfolding scan by (intro progressI) (auto simp: le_imp_less_Suc mult_le_mono)
next
  case none
  with i show ?thesis by simp
next
  case (one task tasks)
  obtain res s' where g: "RequeueTask env (ID task) staleLockThreshold (store w) = (res, s')" by fastforce
  have "redis w' = redis w" "store w' = s'" "p' = Requeuing tasks \<or> p' = Repushing task tasks"
    using st g unfolding one by (auto simp: requeuer_parts split: sum.splits)
  with requeue_counts [OF u g] show ?thesis unfolding one by (intro progressI) auto
next
  case (push task tasks)
  obtain e q' where e: "Enqueue env (NewProducer c) (ID task) (redis w) = (e, q')" by fastforce
  have w': "redis w' = q'" "store w' = store w" "p' = Requeuing tasks"
    using st e by (auto simp: push requeuer_parts split: option.splits)
  from Enqueue_length [OF law e w'(1)] show ?thesis
    unfolding push w'(3) by (intro progressI push_cost) (simp_all add: w'(2))
qed

lemma schedule_progress:
  assumes st: "scheduler_step env (NewScheduler (NewPostgresTaskRepo env) c) p w = (p', w')"
    and law: "lpush_law c items" and u: "undisturbed (store w)" and i: "\<not> idle items (Schedule_pass p) w"
    and R: "length (rows (store w)) \<le> R"
  shows "progress B R items (Schedule_pass p) w (Schedule_pass p') w'"
proof (cases p rule: scheduler_phase_cases)
  case scan
  obtain tasks e s' where g: "GetPendingScheduledTasks env (store w) = ((tasks, e), s')"
    by (metis prod.collapse)
  have rs: "rows s' = rows (store w)" using due_rows_same [OF u g] .
  have len: "e = None \<Longrightarrow> length tasks \<le> R"
    using due_count [OF u] g R by fastforce
  have "redis w' = redis w" "rows (store w') = rows (store w)" "p' = Pushing (if e = None then tasks else [])"
    using st g rs unfolding scan by (auto simp: requeuer_parts Let_def log_def split: option.splits if_splits)
  with len show ?thesis
    unfolding scan by (intro progressI) (auto simp: le_imp_less_Suc mult_le_mono)
next
  case none
  with i show ?thesis by simp
next
  case (one task tasks)
  obtain e q' where e: "Enqueue env (NewProducer c) (ID task) (redis w) = (e, q')" by fastforce
  have w': "redis w' = q'" "store w' = store w" "p' = Pushing tasks"
    using st e by (auto simp: one schedule_one_def requeuer_parts split: option.splits)
  from Enqueue_length [OF law e w'(1)] show ?thesis
    unfolding one w'(3) by (intro progressI push_cost) (simp_all add: w'(2))
qed

lemma claim_progress:
  assumes u: "undisturbed (store w)"
    and q: "pool_query env (with_id we tid (\<lambda>i. worker_claimTask i wid)) w = (res, w')"
  shows "length (rows (store w')) = length (rows (store w))" and "tries (rows (store w')) \<le> tries (rows (store w))"
    and "attempts_le M (rows (store w)) \<Longrightarrow> attempts_le (Suc M) (rows (store w'))" and "redis w' = redis w"
    and "res = Inr (Some task) \<Longrightarrow> c_attempts task < c_max task \<Longrightarrow> tries (rows (store w')) < tries (rows (store w))"
proof -
  let ?stmt = "with_id we tid (\<lambda>i. worker_claimTask i wid)"
  obtain s' where e: "exec env (\<lambda>m. ?stmt) (store w) = (res, s')" and w': "w' = w\<lparr>store := s'\<rparr>"
    using pool_query_exec [OF q] by blast
  have c: "length (snd (?stmt now rs)) = length rs \<and> tries (snd (?stmt now rs)) \<le> tries rs \<and>
      (attempts_le M rs \<longrightarrow> attempts_le (Suc M) (snd (?stmt now rs)))" for now rs
    using claim_tries [where wid = wid and now = now and rs = rs]
    by (auto simp: with_id_def intro: attempts_le_mono split: option.split)
  have "length (rows s') = length (rows (store w)) \<and> tries (rows s') \<le> tries (rows (store w)) \<and>
      (attempts_le M (rows (store w)) \<longrightarrow> attempts_le (Suc M) (rows s'))"
    using u e
  proof (cases rule: exec_cases)
    case (executed now)
    with c [of now "rows (store w)"] show ?thesis by simp
  next
    case (failed e)
    then show ?thesis by (auto intro: attempts_le_mono)
  next
    case (lost e now msg)
    with c [of now "rows (store w)"] show ?thesis by simp
  qed
  then show "length (rows (store w')) = length (rows (store w))"
    "tries (rows (store w')) \<le> tries (rows (store w))"
    "attempts_le M (rows (store w)) \<Longrightarrow> attempts_le (Suc M) (rows (store w'))"
    by (simp_all add: w')
  show "redis w' = redis w" by (simp add: w')
  show "tries (rows (store w')) < tries (rows (store w))"
    if hit: "res = Inr (Some task)" and left: "c_attempts task < c_max task"
  proof -
    obtain i now where "worker_claimTask i wid now (rows (store w)) = (Inr (Some task), rows (store w'))"
      using with_id_ran [OF u q [unfolded hit]] by metis
    from claim_hit_tries [OF this left] show ?thesis .
  qed
qed

lemma worker_progress:
  assumes st: "worker_step env we wid p w = (p', w')" and env: "fits_env env c we items (Work wid p)"
    and up: "brpop_up (brpop we)" and a: "automations_ok B we" and u: "undisturbed (store w)"
    and i: "\<not> idle items (Work wid p) w"
  shows "progress B R items (Work wid p) w (Work wid p') w'"
proof (cases p)
  case Receiving
  then have "pending items (redis w) \<noteq> []" using i by simp
  then obtain vs v where p: "pending items (redis w) = vs @ [v]" by (metis rev_exhaust)
  obtain q' where b: "brpop we TaskQueueKey (redis w) = (Inr (Some v), q')" "pending items q' = vs"
    by (rule brpop_tail [OF fits_envD(4) [OF env] up p])
  with st have "p' = Claiming v" "w' = w\<lparr>redis := q'\<rparr>" unfolding Receiving by simp_all
  with b p show ?thesis unfolding Receiving by (intro progressI) simp_all
next
  case (Claiming tid)
  obtain res w1 where q: "pool_query env (with_id we tid (\<lambda>i. worker_claimTask i wid)) w = (res, w1)"
    by fastforce
  have w': "w' = w1" using st q unfolding Claiming by (auto split: sum.splits option.splits prod.splits)
  note facts = claim_progress [OF u q]
  have cost: "(4 + 2 * B) * tries (rows (store w')) + weight B R (Work wid p') <
      (4 + 2 * B) * tries (rows (store w)) + (2 + 2 * B)"
  proof (cases "\<exists>tid' task n r. p' = Working tid' task n r \<and> verdict task r = RETRY")
    case True
    then obtain tid' task n r where p': "p' = Working tid' task n r" and v: "verdict task r = RETRY" by blast
    with st q obtain au run where res: "res = Inr (Some task)" and run: "run_automation we au task = (n, run)"
      unfolding Claiming by (auto split: sum.splits option.splits prod.splits)
    have "c_attempts task < c_max task" using v by (auto simp: verdict_def split: if_splits)
    then have "Suc (tries (rows (store w'))) \<le> tries (rows (store w))" using facts(5) [OF res] w' by simp
    then have "(4 + 2 * B) * Suc (tries (rows (store w'))) \<le> (4 + 2 * B) * tries (rows (store w))"
      by (rule mult_le_mono2)
    with automation_run(1) [OF a run] v show ?thesis unfolding p' mult_Suc_right by simp
  next
    case False
    then have "weight B R (Work wid p') < 2 + 2 * B"
      using st q automation_run(1) [OF a] unfolding Claiming
      by (fastforce split: sum.splits option.splits prod.splits)
    moreover have "(4 + 2 * B) * tries (rows (store w')) \<le> (4 + 2 * B) * tries (rows (store w))"
      using facts(2) w' by (intro mult_le_mono2) simp
    ultimately show ?thesis by linarith
  qed
  moreover have "inserts (Work wid p') = 0" by simp
  ultimately show ?thesis using facts(1,3,4) w' unfolding Claiming
    by (auto simp: progress_def backlog_def)
next
  case (Rejecting tid task)
  obtain res w1 where e: "pool_query env (with_id we tid (\<lambda>i. worker_updateTaskDeadLetter i wid
      (Some (''No automation found for service: '' @ c_service task)) None)) w = (res, w1)" by fastforce
  have "w' = w1" "p' \<in> {Receiving, Gone}"
    using st e unfolding Rejecting by (auto simp: next_task_def split: sum.splits)
  with write_counts [OF result_writes(3) u e] pool_query_exec [OF e] show ?thesis
    unfolding Rejecting by (intro progressI) auto
next
  case (Working tid task n res)
  show ?thesis
  proof (cases n)
    case 0
    with st Working have r: "record_result env we wid tid task res w = (p', w')" by simp
    with record_result_counts [OF u r] record_result_frame [OF r] Working 0 show ?thesis
      by (intro progressI) auto
  next
    case (Suc m)
    with st Working show ?thesis by (auto simp: progress_def backlog_def intro: attempts_le_mono)
  qed
next
  case (Retrying tid)
  obtain e q' where e: "lpush we TaskQueueKey tid (redis w) = (e, q')" by fastforce
  have w': "redis w' = q'" "p' \<in> {Receiving, Gone}" "store w' = store w"
    using st e unfolding Retrying by (auto split: option.splits)
  from push_length [OF fits_envD(3) [OF env] e w'(1)] w'(2,3) show ?thesis
    unfolding Retrying by (intro progressI push_cost) auto
next
  case Gone
  with i show ?thesis by simp
qed

lemma thread_progress:
  assumes st: "thread_step env c we t w = (t', w')" and env: "fits_env env c we items t"
    and up: "brpop_up (brpop we)" and a: "automations_ok B we" and u: "undisturbed (store w)"
    and i: "\<not> idle items t w" and R: "length (rows (store w)) \<le> R"
  shows "progress B R items t w t' w'"
  using st
proof (cases rule: thread_step_cases)
  case (post p p')
  with post_progress [OF post(3) fits_envD(1) [OF env] u] i show ?thesis by simp
next
  case (reclaim p p')
  with reclaim_progress [OF reclaim(3) fits_envD(1) [OF env] u _ R] i show ?thesis by simp
next
  case (schedule p p')
  with schedule_progress [OF schedule(3) fits_envD(1) [OF env] u _ R] i show ?thesis by simp
next
  case (work wid p p')
  with worker_progress [OF work(3) _ up a u] env i show ?thesis by simp
next
  case (beat wid tid res)
  have "\<exists>a. keeps_counts a \<and> snd (worker_heartbeat i wid now rs) = apply_action (jsonb_in env) now a rs"
    for i now rs by (rule exI [of _ "Heartbeat i wid"]) simp
  from with_id_counts [OF u beat(3) this] pool_query_exec [OF beat(3)] beat(1,2) show ?thesis
    by (intro progressI) auto
next
  case ended
  with i show ?thesis by simp
qed

section \<open>Nothing is lost without failures\<close>

text \<open>Redis answers; the automations end and their texts can be stored.\<close>

definition services_up ::
  "nat \<Rightarrow> env \<Rightarrow> 'q redis_client \<Rightarrow> 'q worker_env \<Rightarrow> ('q \<Rightarrow> string \<Rightarrow> string list) \<Rightarrow> bool" where
  "services_up B env c we items \<longleftrightarrow>
     conc_env env c we items \<and> redis_up c \<and> redis_up (lpush we) \<and> brpop_up (brpop we) \<and>
     automations_ok B we"

lemma healthy_undisturbed: "healthy s \<Longrightarrow> undisturbed s"
  by (simp add: healthy_def undisturbed_def)

lemma healthy_reply: "healthy (store w) \<Longrightarrow> \<not> reply_lost w"
  by (simp add: healthy_def reply_lost_def)

lemma Enqueue_answers: "redis_up c \<Longrightarrow> fst (Enqueue env (NewProducer c) i q) = None"
proof -
  assume "redis_up c"
  then have "fst (c TaskQueueKey (uuid_String env i) q) = None" by (simp add: redis_up_def)
  then show ?thesis by (auto simp: Enqueue_def NewProducer_def split: prod.split option.split)
qed

lemma with_id_answers:
  fixes w :: "(pg, 'q) world" and stmt :: "uuid \<Rightarrow> instant \<Rightarrow> table \<Rightarrow> 'a result \<times> table"
  assumes "healthy (store w)" and "uuid_in we tid = Some i" and "\<And>now. \<exists>x rs'. stmt i now (rows (store w)) = (Inr x, rs')"
  shows "\<exists>x w'. pool_query env (with_id we tid stmt) w = (Inr x, w')"
proof -
  obtain now w' where "pool_query env (with_id we tid stmt) w = (fst (with_id we tid stmt now (rows (store w))), w')"
    using pool_query_step [OF assms(1)] by metis
  with assms(2) assms(3) [of now] show ?thesis by (auto simp: with_id_def)
qed

lemma owner_answers:
  "\<exists>b rs'. worker_updateTaskSuccess i wid now rs = (Inr b, rs')"
  "\<exists>b rs'. worker_scheduleTask i wid at now rs = (Inr b, rs')"
  "pg_opt pg_text err = Inr err \<Longrightarrow> \<exists>b rs'. worker_updateTaskRetry i wid err now rs = (Inr b, rs')"
  "pg_opt pg_text err = Inr err \<Longrightarrow> pg_opt pg_text ev = Inr ev \<Longrightarrow>
    \<exists>b rs'. worker_updateTaskDeadLetter i wid err ev now rs = (Inr b, rs')"
  by (simp_all add: worker_updateTaskSuccess_def worker_scheduleTask_def worker_updateTaskRetry_def
      worker_updateTaskDeadLetter_def hit_def sql_update_def list_all_iff)

lemma claim_answers:
  assumes "pg_varchar255 wid = Inr wid" and "attempts_le M rs" and "int M < int4_max"
  shows "\<exists>x rs'. worker_claimTask i wid now rs = (Inr x, rs')"
proof -
  have "list_all (\<lambda>r. worker_claimable i r \<longrightarrow> attempts_room r) rs"
    using assms(2,3) by (auto simp: attempts_le_def attempts_room_def list_all_iff)
  with assms(1) show ?thesis by (simp add: worker_claimTask_def sql_update_def)
qed

lemma next_task_answers:
  "\<exists>b w1. pool_query env (with_id we tid stmt) w = (Inr b, w1) \<Longrightarrow>
   next_task (pool_query env (with_id we tid stmt) w) = (p', w') \<Longrightarrow> p' = Receiving"
  by (auto simp: next_task_def)

lemma record_result_answers:
  fixes w :: "(pg, 'q) world"
  assumes h: "healthy (store w)" and i: "uuid_in we tid = Some i" and run: "storable_run res"
    and r: "record_result env we wid tid task res w = (p', w')"
  shows "p' \<noteq> Gone"
proof -
  note ans = with_id_answers [OF h i]
  have t: "pg_opt pg_text (run_error res) = Inr (run_error res)"
    "pg_opt pg_text (screenshot_path res) = Inr (screenshot_path res)"
    using run by (simp_all add: storable_run_def)
  consider "scheduled res" | "\<not> scheduled res" "success res"
    | "\<not> scheduled res" "\<not> success res" "c_attempts task \<ge> c_max task"
    | "\<not> scheduled res" "\<not> success res" "\<not> c_attempts task \<ge> c_max task" by linarith
  then show ?thesis
  proof cases
    case 1
    with r next_task_answers [OF ans [of "\<lambda>i. worker_scheduleTask i wid (scheduledFor res)", OF owner_answers(2)]]
    show ?thesis by (auto simp: record_result_def)
  next
    case 2
    with r next_task_answers [OF ans [of "\<lambda>i. worker_updateTaskSuccess i wid", OF owner_answers(1)]]
    show ?thesis by (auto simp: record_result_def)
  next
    case 3
    with r next_task_answers [OF ans [of "\<lambda>i. worker_updateTaskDeadLetter i wid (run_error res) (screenshot_path res)",
      OF owner_answers(4) [OF t]]]
    show ?thesis by (auto simp: record_result_def)
  next
    case 4
    obtain b w1 where "pool_query env (with_id we tid (\<lambda>i. worker_updateTaskRetry i wid (run_error res))) w = (Inr b, w1)"
      using ans [of "\<lambda>i. worker_updateTaskRetry i wid (run_error res)", OF owner_answers(3) [OF t(1)]] by blast
    with r 4 show ?thesis by (auto simp: record_result_def split: if_splits)
  qed
qed

lemma worker_step_answers:
  fixes w :: "(pg, 'q) world"
  assumes st: "worker_step env we wid p w = (p', w')" and env: "services_up B env c we items"
    and name: "pg_varchar255 wid = Inr wid" and h: "healthy (store w)" and f: "fine we (Work wid p)"
    and m: "attempts_le M (rows (store w))" "int M < int4_max"
  shows "drops env c we items (Work wid p) w = {} \<and> stops (Work wid p) (Work wid p') = {}"
proof (cases p)
  case Receiving
  have "\<exists>r. fst (brpop we TaskQueueKey (redis w)) = Inr r"
    using env by (simp add: services_up_def brpop_up_def)
  then obtain r q' where "brpop we TaskQueueKey (redis w) = (Inr r, q')" by (metis prod.collapse)
  with st show ?thesis unfolding Receiving by (auto split: option.splits)
next
  case (Claiming tid)
  obtain i where "uuid_in we tid = Some i" using f Claiming by auto
  from with_id_answers [OF h this, of "\<lambda>i. worker_claimTask i wid" env, OF claim_answers [OF name m]]
  obtain x w1 where "pool_query env (with_id we tid (\<lambda>i. worker_claimTask i wid)) w = (Inr x, w1)" by blast
  with st show ?thesis unfolding Claiming by (auto split: option.splits prod.splits)
next
  case (Rejecting tid task)
  obtain i where i: "uuid_in we tid = Some i" using f Rejecting by auto
  let ?err = "Some (''No automation found for service: '' @ c_service task)"
  have "pg_opt pg_text ?err = Inr ?err"
    using f Rejecting by (simp add: pg_text_def varchar_ok_def)
  then have "\<exists>b rs'. worker_updateTaskDeadLetter i wid ?err None now rs = (Inr b, rs')" for now rs
    by (intro owner_answers(4)) simp_all
  from with_id_answers [OF h i, of "\<lambda>i. worker_updateTaskDeadLetter i wid ?err None" env, OF this]
  have "p' = Receiving" by (rule next_task_answers) (use st Rejecting in simp)
  then show ?thesis unfolding Rejecting by simp
next
  case (Working tid task n res)
  obtain i where i: "uuid_in we tid = Some i" using f Working by auto
  show ?thesis
  proof (cases n)
    case 0
    with st Working have "record_result env we wid tid task res w = (p', w')" by simp
    from record_result_answers [OF h i _ this] f Working healthy_reply [OF h] 0 show ?thesis
      by (cases p') auto
  next
    case (Suc k)
    with st Working show ?thesis by auto
  qed
next
  case (Retrying tid)
  have "fst (lpush we TaskQueueKey tid (redis w)) = None"
    using env by (simp add: services_up_def redis_up_def)
  with st show ?thesis unfolding Retrying by (auto split: prod.splits option.splits)
next
  case Gone
  with st show ?thesis by auto
qed

lemma thread_step_answers:
  fixes w :: "(pg, 'q) world"
  assumes st: "thread_step env c we t w = (t', w')" and env: "services_up B env c we items"
    and n: "named t" and h: "healthy (store w)" and f: "fine we t"
    and m: "attempts_le M (rows (store w))" "int M < int4_max"
  shows "drops env c we items t w = {} \<and> stops t t' = {}"
  using st
proof (cases rule: thread_step_cases)
  case (post p p')
  have "fst (Enqueue env (NewProducer c) i q) = None" for i q
    by (rule Enqueue_answers) (use env in \<open>simp add: services_up_def\<close>)
  with post healthy_reply [OF h] show ?thesis by (cases p) auto
next
  case (reclaim p p')
  have "fst (Enqueue env (NewProducer c) i q) = None" for i q
    by (rule Enqueue_answers) (use env in \<open>simp add: services_up_def\<close>)
  with reclaim healthy_reply [OF h] show ?thesis by (cases p rule: requeuer_phase_cases) auto
next
  case (work wid p p')
  with worker_step_answers [OF work(3) env _ h _ m] n f show ?thesis by simp
qed simp_all

end
