(* ===== verification/Concurrent_Fairness.thy ===== *)
theory Concurrent_Fairness
  imports Concurrent_Liveness
begin

text \<open>
  The pool comes to rest: the work that is left bounds the turns that do something, and in
  rounds in which every thread gets its turns the rest is reached.
\<close>

section \<open>The work of the pool\<close>

definition rows_bound :: "(thread, 'q) conc \<Rightarrow> nat" where
  "rows_bound s = length (rows (store (shared s))) + sum_list (map inserts (threads s))"

definition work :: "nat \<Rightarrow> ('q \<Rightarrow> string \<Rightarrow> string list) \<Rightarrow> (thread, 'q) conc \<Rightarrow> nat" where
  "work B items s =
     backlog B items (shared s) + sum_list (map (weight B (rows_bound s)) (threads s))"

lemma sum_list_replace:
  fixes f :: "'a \<Rightarrow> nat"
  assumes "k < length xs"
  shows "sum_list (map f (xs[k := y])) + f (xs ! k) = sum_list (map f xs) + f y"
proof -
  have "sum_list (map f xs) = sum_list (map f (take k xs @ xs ! k # drop (Suc k) xs))"
    using id_take_nth_drop [OF assms] by simp
  then show ?thesis by (simp add: upd_conv_take_nth_drop [OF assms])
qed

lemma weight_mono: "R' \<le> R \<Longrightarrow> weight B R' t \<le> weight B R t"
  by (cases "(B, R, t)" rule: weight.cases) (auto intro: mult_le_mono2)

lemma weight_sum_mono: "R' \<le> R \<Longrightarrow> sum_list (map (weight B R') ts) \<le> sum_list (map (weight B R) ts)"
  by (intro sum_list_mono) (rule weight_mono)

lemma beats_inserts: "sum_list (map inserts (beats_of t)) = 0"
  by (cases t rule: beats_of.cases) simp_all

lemma turn_thread:
  assumes "k < length (threads s)" and "thread_step env c we (threads s ! k) (shared s) = (t', w')"
  shows "turn env c we items k s =
    \<lparr>shared = w', threads = (threads s)[k := t'] @ beats_of (threads s ! k),
     dropped = dropped s \<union> drops env c we items (threads s ! k) (shared s),
     stopped = stopped s \<union> stops (threads s ! k) t'\<rparr>"
  using assms by (simp add: turn_def pool_turn_def Let_def)

lemma turn_out_of_range: "\<not> k < length (threads s) \<Longrightarrow> turn env c we items k s = s"
  by (simp add: turn_def pool_turn_def)

text \<open>What the counting needs of a state: no other writer, documented services, worker names.\<close>

definition steady ::
  "nat \<Rightarrow> env \<Rightarrow> 'q redis_client \<Rightarrow> 'q worker_env \<Rightarrow> ('q \<Rightarrow> string \<Rightarrow> string list) \<Rightarrow>
   (thread, 'q) conc \<Rightarrow> bool" where
  "steady B env c we items s \<longleftrightarrow>
     brpop_up (brpop we) \<and> automations_ok B we \<and> undisturbed (store (shared s)) \<and>
     list_all (fits_env env c we items) (threads s)"

lemma turn_steady:
  assumes "steady B env c we items s"
  shows "steady B env c we items (turn env c we items k s)"
proof (cases "k < length (threads s)")
  case True
  obtain t' w' where st: "thread_step env c we (threads s ! k) (shared s) = (t', w')" by fastforce
  have f: "fits_env env c we items (threads s ! k)" using assms True by (simp add: steady_def list_all_length)
  have "undisturbed (store w')"
    using threads.runs [OF st] assms by (simp add: steady_def pg_runs_def undisturbed_def)
  with threads.keeps_fit [OF st f] assms set_update_subset_insert [of "threads s" k t'] True show ?thesis
    by (auto simp: turn_thread [OF True st] steady_def list_all_iff)
qed (simp add: turn_out_of_range assms)

text \<open>A turn with something to do.\<close>

lemma turn_busy:
  assumes s: "steady B env c we items s" and k: "k < length (threads s)"
    and i: "\<not> idle items (threads s ! k) (shared s)"
  shows "work B items (turn env c we items k s) < work B items s"
    and "attempts_le M (rows (store (shared s))) \<Longrightarrow>
      attempts_le (Suc M) (rows (store (shared (turn env c we items k s))))"
proof -
  let ?t = "threads s ! k" and ?w = "shared s" and ?R = "rows_bound s"
  obtain t' w' where st: "thread_step env c we ?t ?w = (t', w')" by fastforce
  have f: "fits_env env c we items ?t" using s k by (simp add: steady_def list_all_length)
  have p: "progress B ?R items ?t ?w t' w'"
    using thread_progress [OF st f _ _ _ i] s by (simp add: steady_def rows_bound_def)
  let ?s' = "turn env c we items k s"
  have s': "shared ?s' = w'" "threads ?s' = (threads s)[k := t'] @ beats_of ?t"
    by (simp_all add: turn_thread [OF k st])
  have ins: "sum_list (map inserts (threads ?s')) + inserts ?t = sum_list (map inserts (threads s)) + inserts t'"
    using sum_list_replace [OF k, of inserts t'] beats_inserts [of ?t]
    unfolding s'(2) map_append sum_list_append by linarith
  then have R: "rows_bound ?s' \<le> ?R"
    using p by (simp add: rows_bound_def s'(1) progress_def)
  have "sum_list (map (weight B ?R) (threads ?s')) + weight B ?R ?t =
      sum_list (map (weight B ?R) (threads s)) + weight B ?R t' + sum_list (map (weight B ?R) (beats_of ?t))"
    using sum_list_replace [OF k, of "weight B ?R" t'] by (simp add: s'(2))
  with weight_sum_mono [OF R, of B "threads ?s'"] p show "work B items ?s' < work B items s"
    by (simp add: work_def s'(1) progress_def)
  show "attempts_le M (rows (store ?w)) \<Longrightarrow> attempts_le (Suc M) (rows (store (shared ?s')))"
    using p by (simp add: s'(1) progress_def)
qed

text \<open>A turn with nothing to do leaves everything that counts as it was.\<close>

definition alike :: "('q \<Rightarrow> string \<Rightarrow> string list) \<Rightarrow> (thread, 'q) conc \<Rightarrow> (thread, 'q) conc \<Rightarrow> bool" where
  "alike items s s' \<longleftrightarrow>
     threads s' = threads s \<and> store (shared s') = store (shared s) \<and>
     pending items (redis (shared s')) = pending items (redis (shared s))"

lemma alike_refl [simp]: "alike items s s"
  by (simp add: alike_def)

lemma alike_trans: "alike items s s' \<Longrightarrow> alike items s' s'' \<Longrightarrow> alike items s s''"
  by (simp add: alike_def)

lemma alike_work: "alike items s s' \<Longrightarrow> work B items s' = work B items s"
  by (simp add: alike_def work_def rows_bound_def backlog_def)

lemma alike_idle: "alike items s s' \<Longrightarrow> idle items t (shared s') = idle items t (shared s)"
  by (cases "(items, t, shared s)" rule: idle.cases) (simp_all add: alike_def)

lemma turn_idle:
  assumes s: "steady B env c we items s" and k: "k < length (threads s)"
    and i: "idle items (threads s ! k) (shared s)"
  shows "alike items s (turn env c we items k s)"
proof -
  let ?t = "threads s ! k" and ?w = "shared s"
  obtain t' w' where st: "thread_step env c we ?t ?w = (t', w')" by fastforce
  have f: "fits_env env c we items ?t" using s k by (simp add: steady_def list_all_length)
  have "t' = ?t \<and> store w' = store ?w \<and> pending items (redis w') = pending items (redis ?w) \<and> beats_of ?t = []"
  proof (cases "\<exists>wid. ?t = Work wid Receiving")
    case True
    then obtain wid where t: "?t = Work wid Receiving" by blast
    with i have p: "pending items (redis ?w) = []" by simp
    obtain r q' where b: "brpop we TaskQueueKey (redis ?w) = (Inr r, q')"
      using s unfolding steady_def brpop_up_def by (metis prod.collapse)
    note law = brpop_pending [OF fits_envD(4) [OF f]]
    have "r = None" "pending items q' = []"
      using law [of "redis ?w"] b p by (cases r; fastforce)+
    with st b p show ?thesis unfolding t by auto
  next
    case False
    with i st show ?thesis by (cases "(items, ?t, ?w)" rule: idle.cases) auto
  qed
  then show ?thesis by (simp add: turn_thread [OF k st] alike_def)
qed

section \<open>Termination\<close>

text \<open>The turns of a schedule that do something.\<close>

fun busy ::
  "env \<Rightarrow> 'q redis_client \<Rightarrow> 'q worker_env \<Rightarrow> ('q \<Rightarrow> string \<Rightarrow> string list) \<Rightarrow> nat list \<Rightarrow>
   (thread, 'q) conc \<Rightarrow> nat" where
  "busy env c we items [] s = 0"
| "busy env c we items (k # ks) s =
     (if k < length (threads s) \<and> \<not> idle items (threads s ! k) (shared s) then 1 else 0) +
     busy env c we items ks (turn env c we items k s)"

lemma turn_work_le:
  assumes "steady B env c we items s"
  shows "work B items (turn env c we items k s) \<le> work B items s"
proof (cases "k < length (threads s)")
  case True
  then show ?thesis
    using turn_busy(1) [OF assms True] alike_work [OF turn_idle [OF assms True]] by force
qed (simp add: turn_out_of_range)

lemma busy_bounded:
  "steady B env c we items s \<Longrightarrow> busy env c we items ks s \<le> work B items s"
proof (induction ks arbitrary: s)
  case (Cons k ks)
  have "busy env c we items ks (turn env c we items k s) \<le> work B items (turn env c we items k s)"
    by (rule Cons.IH [OF turn_steady [OF Cons.prems]])
  with turn_work_le [OF Cons.prems, of k] turn_busy(1) [OF Cons.prems, of k] show ?case by force
qed simp

section \<open>Rounds in which everyone gets a turn\<close>

definition at_rest :: "('q \<Rightarrow> string \<Rightarrow> string list) \<Rightarrow> (thread, 'q) conc \<Rightarrow> bool" where
  "at_rest items s \<longleftrightarrow> list_all (\<lambda>t. idle items t (shared s)) (threads s)"

text \<open>In each of the rounds, in any order and as often as it may be, every thread that is there
  when the round begins gets a turn.\<close>

fun fair ::
  "env \<Rightarrow> 'q redis_client \<Rightarrow> 'q worker_env \<Rightarrow> ('q \<Rightarrow> string \<Rightarrow> string list) \<Rightarrow> nat list list \<Rightarrow>
   (thread, 'q) conc \<Rightarrow> bool" where
  "fair env c we items [] s = True"
| "fair env c we items (ks # rounds) s =
     (list_all (\<lambda>k. k \<in> set ks) [0..<length (threads s)] \<and>
      fair env c we items rounds (turns env c we items ks s))"

lemma turns_simps [simp]:
  "turns env c we items [] s = s"
  "turns env c we items (k # ks) s = turns env c we items ks (turn env c we items k s)"
  by (simp_all add: turns_def)

lemma turns_steady: "steady B env c we items s \<Longrightarrow> steady B env c we items (turns env c we items ks s)"
  by (induction ks arbitrary: s) (auto intro: turn_steady)

lemma alike_rest: "alike items s s' \<Longrightarrow> at_rest items s' = at_rest items s"
  unfolding at_rest_def by (simp add: alike_idle) (simp add: alike_def)

lemma rest_turns:
  assumes "steady B env c we items s" and "at_rest items s"
  shows "alike items s (turns env c we items ks s)"
  using assms
proof (induction ks arbitrary: s)
  case (Cons k ks)
  have a: "alike items s (turn env c we items k s)"
  proof (cases "k < length (threads s)")
    case True
    with Cons.prems show ?thesis by (intro turn_idle) (auto simp: at_rest_def list_all_length)
  qed (simp add: turn_out_of_range)
  have "alike items (turn env c we items k s) (turns env c we items ks (turn env c we items k s))"
    using Cons.IH [OF turn_steady [OF Cons.prems(1)]] alike_rest [OF a] Cons.prems(2) by simp
  with a show ?case by (auto intro: alike_trans)
qed simp

text \<open>A round uses up work, or nobody in it had anything to do.\<close>

lemma round_work:
  assumes "steady B env c we items s"
  shows "work B items (turns env c we items ks s) \<le> work B items s" (is ?le)
    and "work B items (turns env c we items ks s) = work B items s \<Longrightarrow> k \<in> set ks \<Longrightarrow>
      k < length (threads s) \<Longrightarrow> idle items (threads s ! k) (shared s)"
proof -
  have "work B items (turns env c we items ks s) \<le> work B items s \<and>
      (work B items (turns env c we items ks s) = work B items s \<longrightarrow>
        (\<forall>k\<in>set ks. k < length (threads s) \<longrightarrow> idle items (threads s ! k) (shared s)))"
    using assms
  proof (induction ks arbitrary: s)
    case (Cons j ks)
    let ?s = "turn env c we items j s"
    note IH = Cons.IH [OF turn_steady [OF Cons.prems, of j]]
    note le = turn_work_le [OF Cons.prems, of j]
    show ?case
    proof (cases "work B items (turns env c we items ks ?s) = work B items s")
      case True
      with IH le have eq: "work B items ?s = work B items s"
        "\<forall>k\<in>set ks. k < length (threads ?s) \<longrightarrow> idle items (threads ?s ! k) (shared ?s)" by auto
      have j: "j < length (threads s) \<Longrightarrow> idle items (threads s ! j) (shared s)"
        using turn_busy(1) [OF Cons.prems, of j] eq(1) by fastforce
      have a: "alike items s ?s"
        using turn_idle [OF Cons.prems _ j] by (cases "j < length (threads s)") (simp_all add: turn_out_of_range)
      have "threads ?s = threads s" using a by (simp add: alike_def)
      with eq(2) alike_idle [OF a] j True show ?thesis by auto
    next
      case False
      with IH le show ?thesis by auto
    qed
  qed simp
  then show ?le "work B items (turns env c we items ks s) = work B items s \<Longrightarrow> k \<in> set ks \<Longrightarrow>
      k < length (threads s) \<Longrightarrow> idle items (threads s ! k) (shared s)" by blast+
qed

lemma fair_rest:
  assumes "steady B env c we items s" and "fair env c we items rounds s" and "work B items s \<le> length rounds"
  shows "at_rest items (turns env c we items (concat rounds) s)"
  using assms
proof (induction rounds arbitrary: s)
  case Nil
  then have "idle items (threads s ! k) (shared s)" if "k < length (threads s)" for k
    using turn_busy(1) [OF Nil(1) that] by auto
  then show ?case by (simp add: at_rest_def list_all_length)
next
  case (Cons ks rounds)
  let ?s = "turns env c we items ks s"
  have split: "turns env c we items (concat (ks # rounds)) s = turns env c we items (concat rounds) ?s"
    by (simp add: turns_def)
  show ?case
  proof (cases "work B items ?s = work B items s")
    case True
    have "idle items (threads s ! k) (shared s)" if "k < length (threads s)" for k
      using round_work(2) [OF Cons.prems(1) True _ that] Cons.prems(2) that by (simp add: list_all_iff)
    then have r: "at_rest items s" by (simp add: at_rest_def list_all_length)
    from alike_rest [OF rest_turns [OF Cons.prems(1) r]] r show ?thesis by blast
  next
    case False
    with round_work(1) [OF Cons.prems(1), of ks] Cons.prems(3) have "work B items ?s \<le> length rounds" by simp
    with Cons.IH [OF turns_steady [OF Cons.prems(1)]] Cons.prems(2) show ?thesis unfolding split by simp
  qed
qed

section \<open>What every run keeps\<close>

lemma step_table_ok:
  assumes "thread_step env c we t w = (t', w')" and "undisturbed (store w)"
    and "table_ok (clock (store w)) (rows (store w))"
  shows "table_ok (clock (store w')) (rows (store w'))"
proof -
  have "db_steps (jsonb_in env) no_set_status (clock (store w), rows (store w)) (clock (store w'), rows (store w'))"
    using threads.runs [OF assms(1)] undisturbed_others [OF assms(2)] by (simp add: pg_runs_def)
  from db_steps_table_ok [OF this] assms(3) show ?thesis by simp
qed

text \<open>Whatever fails, the entries are UUIDs and the workers hold what can be stored.\<close>

definition sane_pool ::
  "env \<Rightarrow> 'q redis_client \<Rightarrow> 'q worker_env \<Rightarrow> ('q \<Rightarrow> string \<Rightarrow> string list) \<Rightarrow> (thread, 'q) conc \<Rightarrow> bool" where
  "sane_pool env c we items s \<longleftrightarrow>
     threads.pool_ok we items env c s \<and> table_ok (clock (store (shared s))) (rows (store (shared s))) \<and>
     list_all (fine we) (threads s) \<and> readable we items (shared s)"

lemma turn_sane:
  assumes sp: "sane_pool env c we items s" and a: "automations_ok B we"
  shows "sane_pool env c we items (turn env c we items k s)"
proof (cases "k < length (threads s)")
  case False
  with sp show ?thesis by (simp add: turn_out_of_range)
next
  case True
  obtain t' w' where st: "thread_step env c we (threads s ! k) (shared s) = (t', w')" by fastforce
  have u: "undisturbed (store (shared s))"
    and tab: "table_ok (clock (store (shared s))) (rows (store (shared s)))"
    and f: "fine we (threads s ! k)" "fits_env env c we items (threads s ! k)"
    and q: "readable we items (shared s)" and all: "list_all (fine we) (threads s)"
    using sp True by (simp_all add: sane_pool_def threads.pool_ok_def list_all_length)
  have "threads.pool_ok we items env c (turn env c we items k s)"
    unfolding turn_def by (rule threads.pool_turn_ok) (use sp in \<open>simp add: sane_pool_def\<close>)
  moreover note step_table_ok [OF st u tab] thread_step_fine [OF st f(2) u tab a f(1) q]
  moreover have "list_all (fine we) ((threads s)[k := t'])" if "fine we t'"
    using all that set_update_subset_insert [of "threads s" k t'] by (auto simp: list_all_iff)
  ultimately show ?thesis by (simp add: sane_pool_def turn_thread [OF True st])
qed

lemma holds_crashed: "holds we t \<subseteq> holds we (crashed_thread t) \<union> UNIV \<times> Some ` stops t (crashed_thread t)"
proof (cases t)
  case (Work wid p)
  then show ?thesis by (cases p) (auto simp: ids_of_def)
qed simp_all

lemma crashed_fits:
  "fits_env env c we items t \<Longrightarrow> fits_env env c we items (crashed_thread t)"
  "fine we (crashed_thread t)"
  by (cases t; simp add: fits_env_def)+

lemma arrives_fits:
  assumes "arrives t" and "conc_env env c we items"
  shows "fits_env env c we items t" and "fine we t"
  using assms by (cases t rule: arrives.cases; simp add: fits_env_def)+

lemma list_all_update: "list_all P xs \<Longrightarrow> P y \<Longrightarrow> list_all P (xs[k := y])"
  using set_update_subset_insert [of xs k y] by (auto simp: list_all_iff)

lemma conc_step_ok:
  assumes "conc_step env c we items s s'" and "threads.pool_ok we items env c s"
    and "conc_env env c we items"
  shows "threads.pool_ok we items env c s'"
  using assms(1)
proof (cases rule: conc_step.cases)
  case (turn k)
  then show ?thesis using threads.pool_turn_ok [OF assms(2)] by (simp add: Concurrent.turn_def)
next
  case (arrive t)
  with threads.pool_arrive [OF assms(2) arrives_fits(1) [OF _ assms(3)]] show ?thesis by simp
next
  case (shutdown k wid)
  have "fits_env env c we items (Work wid Receiving)"
    using assms(2) shutdown by (metis threads.pool_ok_def list_all_length)
  with threads.pool_replace [OF assms(2), of k "Work wid Gone" "{}" "{}"] shutdown show ?thesis
    by (simp add: fits_env_def)
next
  case (crash k t)
  have "fits_env env c we items t"
    using assms(2) crash by (simp add: threads.pool_ok_def list_all_length)
  from crashed_fits(1) [OF this] threads.pool_replace [OF assms(2), of k "crashed_thread t" "owes we t" "stops t (crashed_thread t)"] crash
    holds_crashed [of we t]
  show ?thesis by simp
qed

lemma conc_step_sane:
  assumes "conc_step env c we items s s'" and sp: "sane_pool env c we items s"
    and env: "conc_env env c we items" and a: "automations_ok B we"
  shows "sane_pool env c we items s'"
proof -
  have ok: "threads.pool_ok we items env c s'"
    by (rule conc_step_ok [OF assms(1) _ env]) (use sp in \<open>simp add: sane_pool_def\<close>)
  from assms(1) show ?thesis
  proof (cases rule: conc_step.cases)
    case (turn k)
    with turn_sane [OF sp a] show ?thesis by simp
  next
    case (arrive t)
    with ok sp arrives_fits(2) [OF _ env] show ?thesis by (simp add: sane_pool_def)
  next
    case (shutdown k wid)
    with ok sp show ?thesis by (simp add: sane_pool_def list_all_update)
  next
    case (crash k t)
    with ok sp show ?thesis by (simp add: sane_pool_def list_all_update crashed_fits(2))
  qed
qed

lemma conc_steps_sane:
  "conc_steps env c we items s s' \<Longrightarrow> conc_env env c we items \<Longrightarrow> automations_ok B we \<Longrightarrow>
   sane_pool env c we items s \<Longrightarrow> sane_pool env c we items s'"
  by (induction rule: rtranclp_induct) (auto intro: conc_step_sane)

end
