(* ===== verification/Concurrent_Recovery.thy ===== *)
theory Concurrent_Recovery
  imports Concurrent_Fairness
begin

text \<open>
  Without further failures every task is settled.  Workers may have crashed before: a running
  task whose worker has stopped is taken back by a pass of the requeuer that is to come,
  while everything else goes on.
\<close>

section \<open>Rows of stopped workers\<close>

text \<open>The worker in whose name a thread writes.\<close>

fun acts_for :: "thread \<Rightarrow> string set" where
  "acts_for (Work wid p) = (if p = Gone then {} else {wid})"
| "acts_for (Beat wid tid) = {wid}"
| "acts_for t = {}"

text \<open>Statements that give no task to a worker of \<open>S\<close> and send no heartbeat in its name.\<close>

definition tame :: "string set \<Rightarrow> db_action \<Rightarrow> bool" where
  "tame S a \<longleftrightarrow> no_set_status a \<and> snd ` gives a \<inter> Some ` S = {} \<and> (\<forall>i w. a = Heartbeat i w \<longrightarrow> w \<notin> S)"

definition dead_row :: "string set \<Rightarrow> task_row \<Rightarrow> bool" where
  "dead_row S r \<longleftrightarrow> c_status r = IN_PROGRESS \<and> c_locked_by r \<in> Some ` S"

lemma worker_action_tame: "worker_action wid a \<Longrightarrow> pg_varchar255 wid = Inr wid \<Longrightarrow> wid \<notin> S \<Longrightarrow> tame S a"
  by (cases a) (auto simp: tame_def)

lemma thread_action_tame:
  "thread_action t a \<Longrightarrow> named t \<Longrightarrow> acts_for t \<inter> S = {} \<Longrightarrow> tame S a"
proof (cases t)
  case (Work wid p)
  then show "thread_action t a \<Longrightarrow> named t \<Longrightarrow> acts_for t \<inter> S = {} \<Longrightarrow> tame S a"
    using worker_action_tame [of wid a S] by simp
qed (cases a; simp add: tame_def)+

lemma row_update_dead: "row_update now a r r' \<Longrightarrow> tame S a \<Longrightarrow> \<not> dead_row S r'"
  by (cases a) (auto simp: tame_def dead_row_def row_transformers beats_def)

lemma tame_step:
  assumes "tame S a" and "r \<in> set (apply_action J now a rs)" and "dead_row S r"
  shows "r \<in> set rs"
proof (cases rule: action_cases [of rs J now a])
  case (insert newid key svc email p sched)
  with assms show ?thesis by (auto simp: dead_row_def default_row_def)
next
  case (update f)
  with assms row_update_dead show ?thesis by fastforce
qed

lemma tame_steps:
  assumes "db_steps J (tame S) (t, rs) (t', rs')"
  shows "t \<le> t' \<and> (\<forall>r\<in>set rs'. dead_row S r \<longrightarrow> r \<in> set rs)"
  using assms
proof (induction rule: rtranclp_induct2)
  case (step t1 rs1 t2 rs2)
  from step.hyps(2) show ?case
    by (cases rule: db_step.cases) (use step.IH tame_step in \<open>auto, blast?\<close>)
qed simp

lemma thread_keeps_dead:
  assumes st: "thread_step env c we t w = (t', w')" and "named t" and "acts_for t \<inter> S = {}"
    and "undisturbed (store w)"
  shows "clock (store w) \<le> clock (store w')"
    and "r \<in> set (rows (store w')) \<Longrightarrow> dead_row S r \<Longrightarrow> r \<in> set (rows (store w))"
proof -
  have "pg_runs env (tame S) (store w) (store w')"
    by (rule thread_runs [OF st]) (rule thread_action_tame [OF _ assms(2,3)])
  with undisturbed_others [OF assms(4)] have
    "db_steps (jsonb_in env) (tame S) (clock (store w), rows (store w)) (clock (store w'), rows (store w'))"
    by (simp add: pg_runs_def)
  from tame_steps [OF this] show "clock (store w) \<le> clock (store w')"
    "r \<in> set (rows (store w')) \<Longrightarrow> dead_row S r \<Longrightarrow> r \<in> set (rows (store w))" by blast+
qed

section \<open>The pass that takes them back\<close>

text \<open>The stale tasks a pass will still look at.\<close>

fun reclaims :: "thread \<Rightarrow> uuid set" where
  "reclaims (Reclaim_pass Scanning) = UNIV"
| "reclaims (Reclaim_pass (Requeuing tasks)) = ID ` set tasks"
| "reclaims (Reclaim_pass (Repushing task tasks)) = ID ` set tasks"
| "reclaims t = {}"

lemma reclaim_scan:
  assumes "healthy (store w)" and "interval_30s env" and "r \<in> set (rows (store w))"
    and "is_stale 30000000 (clock (store w)) r"
    and "requeuer_step env (pg_requeuer env c) Scanning w = (p', w')"
  shows "c_id r \<in> reclaims (Reclaim_pass p')"
proof -
  obtain now where now: "clock (store w) \<le> now"
    and q: "GetStaleInProgressTasks env staleLockThreshold (store w) =
      ((map scan_task (sort_key (\<lambda>r. m_rank (moment_of (store w)) (c_id r)) (sql_stale 30000000 now (rows (store w)))),
        None), (store w)\<lparr>clock := now, rows := rows (store w), calls := Suc (calls (store w))\<rparr>)"
    by (rule stale_healthy [OF assms(1,2)])
  have "r \<in> set (sql_stale 30000000 now (rows (store w)))"
    using assms(3) is_stale_later [OF assms(4) now] by (simp add: sql_stale_def)
  then have "c_id r \<in> ID ` scan_task ` set (sql_stale 30000000 now (rows (store w)))"
    by (force simp: ID_scan)
  with assms(5) q show ?thesis by (auto simp: requeuer_parts Let_def image_image)
qed

lemma released_pending: "x \<in> set (released I T rs) \<Longrightarrow> c_id x \<in> I \<Longrightarrow> c_status x = PENDING"
  by (auto simp: released_def row_transformers)

lemma reclaim_one:
  assumes "healthy (store w)" and "interval_30s env" and "distinct (map c_id (rows (store w)))"
    and "r \<in> set (rows (store w))" and "is_stale 30000000 (clock (store w)) r"
    and "requeuer_step env (pg_requeuer env c) (Requeuing (task # tasks)) w = (p', w')"
    and "r \<in> set (rows (store w'))" and "c_status r = IN_PROGRESS"
  shows "ID task \<noteq> c_id r"
proof
  assume id: "ID task = c_id r"
  have "rows (store w') = released {c_id r}
      (\<lambda>_. clock (store w) + int (m_elapsed (moment_of (store w)))) (rows (store w))"
    using assms(6) RequeueTask_healthy [OF assms(1-5)] by (auto simp: requeuer_parts id)
  then have "r \<in> set (released {c_id r} (\<lambda>_. clock (store w) + int (m_elapsed (moment_of (store w))))
      (rows (store w)))" using assms(7) by simp
  then have "c_status r = PENDING" by (rule released_pending) simp
  with assms(8) show False by simp
qed

lemma thread_reclaims:
  assumes st: "thread_step env c we t w = (t', w')" and h: "healthy (store w)" "interval_30s env"
    and d: "distinct (map c_id (rows (store w)))"
    and r: "r \<in> set (rows (store w))" "is_stale 30000000 (clock (store w)) r"
      "r \<in> set (rows (store w'))" "c_status r = IN_PROGRESS"
    and i: "c_id r \<in> reclaims t"
  shows "c_id r \<in> reclaims t'"
  using st
proof (cases rule: thread_step_cases)
  case (reclaim p p')
  show ?thesis
  proof (cases p rule: requeuer_phase_cases)
    case scan
    with reclaim reclaim_scan [OF h r(1,2)] show ?thesis by blast
  next
    case (one task tasks)
    from reclaim_one [OF h(1,2) d r(1,2) _ r(3,4)] reclaim(3) have "ID task \<noteq> c_id r" unfolding one by blast
    with reclaim i show ?thesis
      unfolding one by (auto split: sum.splits prod.splits if_splits)
  next
    case (push task tasks)
    with reclaim i show ?thesis by (auto split: prod.splits option.splits)
  next
    case none
    with reclaim i show ?thesis by simp
  qed
qed (use i in simp_all)

text \<open>
  Every running task of a worker in \<open>S\<close> has been without a heartbeat for 30 seconds and a pass
  will still look at it; nobody writes in the name of these workers.
\<close>

definition recoverable :: "string set \<Rightarrow> (thread, 'q) conc \<Rightarrow> bool" where
  "recoverable S s \<longleftrightarrow>
     (\<forall>t\<in>set (threads s). acts_for t \<inter> S = {}) \<and>
     (\<forall>r\<in>set (rows (store (shared s))). dead_row S r \<longrightarrow>
        is_stale 30000000 (clock (store (shared s))) r \<and> (\<exists>t\<in>set (threads s). c_id r \<in> reclaims t))"

lemma acts_for_turn:
  assumes "thread_step env c we t w = (t', w')" and "t'' \<in> set (t' # beats_of t)"
  shows "acts_for t'' \<subseteq> acts_for t"
proof -
  have "acts_for t' \<subseteq> acts_for t"
    using assms(1) by (cases rule: thread_step_cases) auto
  moreover have "acts_for b \<subseteq> acts_for t" if "b \<in> set (beats_of t)" for b
    using that by (cases t rule: beats_of.cases) auto
  ultimately show ?thesis using assms(2) by auto
qed

lemma turn_recoverable:
  assumes rc: "recoverable S s" and k: "k < length (threads s)"
    and st: "thread_step env c we (threads s ! k) (shared s) = (t', w')"
    and h: "healthy (store (shared s))" "interval_30s env"
    and d: "distinct (map c_id (rows (store (shared s))))" and n: "named (threads s ! k)"
  shows "recoverable S (turn env c we items k s)"
proof -
  let ?t = "threads s ! k"
  obtain R where old: "set (threads s) = insert ?t R" and new: "set ((threads s)[k := t']) = insert t' R"
    using set_update_split [OF k] by metis
  have a: "acts_for ?t \<inter> S = {}" using rc k by (simp add: recoverable_def)
  note dead = thread_keeps_dead [OF st n a healthy_undisturbed [OF h(1)]]
  have "acts_for t'' \<inter> S = {}" if "t'' \<in> set (t' # beats_of ?t)" for t''
    using acts_for_turn [OF st that] a by blast
  moreover have "is_stale 30000000 (clock (store w')) r \<and> (\<exists>t\<in>insert t' R. c_id r \<in> reclaims t)"
    if r: "r \<in> set (rows (store w'))" "dead_row S r" for r
  proof -
    have "r \<in> set (rows (store (shared s)))" by (rule dead(2) [OF r])
    with rc r(2) have s: "is_stale 30000000 (clock (store (shared s))) r"
      and ex: "\<exists>t\<in>insert ?t R. c_id r \<in> reclaims t" unfolding recoverable_def old by blast+
    have "c_id r \<in> reclaims t'" if "c_id r \<in> reclaims ?t"
      using thread_reclaims [OF st h d dead(2) [OF r] s r(1) _ that] r(2) by (simp add: dead_row_def)
    with ex is_stale_later [OF s dead(1)] show ?thesis by blast
  qed
  moreover have "\<forall>t\<in>R. acts_for t \<inter> S = {}" using rc by (simp add: recoverable_def old)
  ultimately show ?thesis unfolding turn_thread [OF k st] recoverable_def by (auto simp: new ball_Un bex_Un)
qed

section \<open>A pool that loses nothing\<close>

text \<open>
  A state in which nothing is missing: Postgres and Redis answer, every waiting task has an
  entry or a thread that owes it, every running task is with its worker or with a pass that
  takes it back, and the attempts column has room for the work left.
\<close>

definition live_pool ::
  "nat \<Rightarrow> string set \<Rightarrow> env \<Rightarrow> 'q redis_client \<Rightarrow> 'q worker_env \<Rightarrow>
   ('q \<Rightarrow> string \<Rightarrow> string list) \<Rightarrow> (thread, 'q) conc \<Rightarrow> bool" where
  "live_pool B S env c we items s \<longleftrightarrow>
     services_up B env c we items \<and> interval_30s env \<and> healthy (store (shared s)) \<and>
     table_ok (clock (store (shared s))) (rows (store (shared s))) \<and>
     threads.pool_ok we items env c (s\<lparr>dropped := {}, stopped := S\<rparr>) \<and>
     recoverable S s \<and> list_all (fine we) (threads s) \<and> readable we items (shared s) \<and>
     (\<exists>M. attempts_le M (rows (store (shared s))) \<and> int (M + work B items s) < int4_max)"

text \<open>A worker whose process runs.\<close>

fun alive :: "thread \<Rightarrow> bool" where
  "alive (Work wid p) = (p \<noteq> Gone)"
| "alive t = False"

definition manned :: "(thread, 'q) conc \<Rightarrow> bool" where
  "manned s \<longleftrightarrow> list_ex alive (threads s)"

lemma alive_Work: "alive t \<Longrightarrow> \<exists>wid p. t = Work wid p \<and> p \<noteq> Gone"
  by (cases t) auto

lemma mannedE:
  assumes "manned s"
  obtains wid p where "Work wid p \<in> set (threads s)" and "p \<noteq> Gone"
proof -
  obtain t where "t \<in> set (threads s)" "alive t" using assms by (auto simp: manned_def list_ex_iff)
  then show thesis using that alive_Work by blast
qed

lemma mannedI: "Work wid p \<in> set (threads s) \<Longrightarrow> p \<noteq> Gone \<Longrightarrow> manned s"
  by (force simp: manned_def list_ex_iff)

lemma live_steady: "live_pool B S env c we items s \<Longrightarrow> steady B env c we items s"
  by (simp add: live_pool_def steady_def services_up_def threads.pool_ok_def healthy_undisturbed)

lemma alike_live:
  assumes "alike items s s'" and "live_pool B S env c we items s"
  shows "live_pool B S env c we items s'"
  using assms alike_work [OF assms(1), of B]
  by (simp add: live_pool_def alike_def threads.pool_ok_def entered_def readable_def recoverable_def)

text \<open>A turn of a live pool: nothing is lost, nobody stops.\<close>

lemma live_answers:
  assumes l: "live_pool B S env c we items s" and k: "k < length (threads s)"
    and st: "thread_step env c we (threads s ! k) (shared s) = (t', w')"
  shows "drops env c we items (threads s ! k) (shared s) = {}" and "stops (threads s ! k) t' = {}"
proof -
  obtain M where m: "attempts_le M (rows (store (shared s)))" "int M < int4_max"
    using l by (auto simp: live_pool_def)
  have "services_up B env c we items" "healthy (store (shared s))" "fine we (threads s ! k)"
    "named (threads s ! k)"
    using l k by (simp_all add: live_pool_def list_all_length threads.pool_ok_def fits_env_def)
  with thread_step_answers [OF st _ _ _ _ m]
  show "drops env c we items (threads s ! k) (shared s) = {}" "stops (threads s ! k) t' = {}"
    by blast+
qed

lemma turn_live:
  assumes l: "live_pool B S env c we items s"
  shows "live_pool B S env c we items (turn env c we items k s)"
proof (cases "k < length (threads s) \<and> \<not> idle items (threads s ! k) (shared s)")
  case False
  have "alike items s (turn env c we items k s)"
    using False turn_idle [OF live_steady [OF l], of k]
    by (cases "k < length (threads s)") (simp_all add: turn_out_of_range)
  from alike_live [OF this l] show ?thesis .
next
  case True
  then have k: "k < length (threads s)" and i: "\<not> idle items (threads s ! k) (shared s)" by blast+
  let ?s' = "turn env c we items k s"
  obtain t' w' where st: "thread_step env c we (threads s ! k) (shared s) = (t', w')" by fastforce
  note lost = live_answers [OF l k st]
  have s': "shared ?s' = w'" "threads ?s' = (threads s)[k := t'] @ beats_of (threads s ! k)"
    by (simp_all add: turn_thread [OF k st])
  have sv: "services_up B env c we items" "interval_30s env" and h: "healthy (store (shared s))"
    and tab: "table_ok (clock (store (shared s))) (rows (store (shared s)))"
    and f: "fine we (threads s ! k)" "fits_env env c we items (threads s ! k)"
    using l k by (simp_all add: live_pool_def list_all_length threads.pool_ok_def)
  note u = healthy_undisturbed [OF h]
  have "healthy (store w')" using threads.runs [OF st] h by (simp add: pg_runs_def healthy_def)
  moreover have "table_ok (clock (store w')) (rows (store w'))" by (rule step_table_ok [OF st u tab])
  moreover have "threads.pool_ok we items env c (?s'\<lparr>dropped := {}, stopped := S\<rparr>)"
  proof -
    have "threads.pool_ok we items env c (s\<lparr>dropped := {}, stopped := S\<rparr>)" using l by (simp add: live_pool_def)
    from threads.pool_turn_ok [OF this, of k]
    have "threads.pool_ok we items env c (turn env c we items k (s\<lparr>dropped := {}, stopped := S\<rparr>))"
      by (simp add: turn_def)
    moreover have "turn env c we items k (s\<lparr>dropped := {}, stopped := S\<rparr>) = ?s'\<lparr>dropped := {}, stopped := S\<rparr>"
      using st k lost by (simp add: turn_thread [where t' = t' and w' = w'])
    ultimately show ?thesis by simp
  qed
  moreover have "recoverable S ?s'"
    by (rule turn_recoverable [OF _ k st h]) (use l tab f(2) in \<open>simp_all add: live_pool_def table_ok_def fits_env_def\<close>)
  moreover have "list_all (fine we) (threads ?s')" "readable we items w'"
  proof -
    have fine: "fine we t'" "list_all (fine we) (beats_of (threads s ! k))" "readable we items w'"
      using thread_step_fine [OF st f(2) u tab _ f(1), of B] l sv by (simp_all add: live_pool_def services_up_def)
    then show "readable we items w'" by simp
    have "list_all (fine we) (threads s)" using l by (simp add: live_pool_def)
    with fine show "list_all (fine we) (threads ?s')"
      using set_update_subset_insert [of "threads s" k t'] by (auto simp: s'(2) list_all_iff)
  qed
  moreover have "\<exists>M. attempts_le M (rows (store w')) \<and> int (M + work B items ?s') < int4_max"
  proof -
    obtain M where M: "attempts_le M (rows (store (shared s)))" "int (M + work B items s) < int4_max"
      using l by (auto simp: live_pool_def)
    note b = turn_busy [OF live_steady [OF l] k i]
    from b(2) [OF M(1)] b(1) M(2) show ?thesis by (intro exI [where x = "Suc M"]) (simp add: s'(1))
  qed
  ultimately show ?thesis using sv by (simp add: live_pool_def s'(1))
qed

lemma turn_manned:
  assumes l: "live_pool B S env c we items s" and m: "manned s"
  shows "manned (turn env c we items k s)"
proof (cases "k < length (threads s)")
  case False
  with m show ?thesis by (simp add: turn_out_of_range)
next
  case True
  obtain t' w' where st: "thread_step env c we (threads s ! k) (shared s) = (t', w')" by fastforce
  obtain wid p where p: "Work wid p \<in> set (threads s)" "p \<noteq> Gone"
    using mannedE [OF m] .
  have "\<exists>p'. Work wid p' \<in> set ((threads s)[k := t']) \<and> p' \<noteq> Gone"
  proof (cases "threads s ! k = Work wid p")
    case t: True
    then obtain p' where p': "t' = Work wid p'" using st by (auto simp: apfst_def map_prod_def split: prod.splits)
    have "p' \<noteq> Gone" using live_answers(2) [OF l True st] p(2) by (auto simp: t p')
    with set_update_memI [OF True, of t'] p' show ?thesis by blast
  next
    case False
    with p set_update_split [OF True] show ?thesis by (metis insert_iff)
  qed
  then obtain p' where "Work wid p' \<in> set (threads (turn env c we items k s))" "p' \<noteq> Gone"
    by (auto simp: turn_thread [OF True st])
  then show ?thesis by (rule mannedI)
qed

lemma turns_live:
  "live_pool B S env c we items s \<Longrightarrow> live_pool B S env c we items (turns env c we items ks s)"
  "live_pool B S env c we items s \<Longrightarrow> manned s \<Longrightarrow> manned (turns env c we items ks s)"
  by (induction ks arbitrary: s) (auto intro: turn_live turn_manned)

text \<open>At rest, with a worker there, the list is empty and nothing waits or runs.\<close>

lemma idle_facts:
  "idle items t w \<Longrightarrow> owes we t = {} \<and> holds we t = {} \<and> reclaims t = {}"
  by (cases "(items, t, w)" rule: idle.cases) simp_all

lemma rest_settled:
  assumes l: "live_pool B S env c we items s" and r: "at_rest items s" and m: "manned s"
  shows "pending items (redis (shared s)) = []" and "list_all settled (rows (store (shared s)))"
proof -
  obtain wid p where "Work wid p \<in> set (threads s)" "p \<noteq> Gone"
    using mannedE [OF m] .
  with r have "idle items (Work wid p) (shared s)" by (auto simp: at_rest_def list_all_iff)
  with \<open>p \<noteq> Gone\<close> show e: "pending items (redis (shared s)) = []" by (cases p) (auto elim: idle.elims)
  have none: "\<Union> (owes we ` set (threads s)) = {}" "\<Union> (holds we ` set (threads s)) = {}"
    "\<Union> (reclaims ` set (threads s)) = {}"
    using r idle_facts unfolding at_rest_def list_all_iff by blast+
  with l e have waiting: "awaits (rows (store (shared s))) = {}"
    and "running (rows (store (shared s))) \<subseteq> UNIV \<times> Some ` S"
    by (simp_all add: live_pool_def threads.pool_ok_def entered_def)
  then have "dead_row S x" if "x \<in> set (rows (store (shared s)))" "c_status x = IN_PROGRESS" for x
    using that by (auto simp: running_def dead_row_def)
  moreover have "\<not> dead_row S x" if "x \<in> set (rows (store (shared s)))" for x
    using l that none(3) by (auto simp: live_pool_def recoverable_def)
  ultimately have "\<not> needs_worker x \<and> c_status x \<noteq> IN_PROGRESS" if "x \<in> set (rows (store (shared s)))" for x
    using that waiting by (auto simp: awaits_def)
  moreover have "settled x" if "\<not> needs_worker x" "c_status x \<noteq> IN_PROGRESS" for x
    using that by (cases "c_status x") (auto simp: settled_def needs_worker_def)
  ultimately show "list_all settled (rows (store (shared s)))" by (simp add: list_all_iff)
qed

text \<open>
  What earlier failures and crashes have left is covered: no waiting task lost its entry, and
  every running task of a stopped worker has been without a heartbeat for 30 seconds, a pass
  of the requeuer will still look at it, and nothing is left that writes in the name of that
  worker.
\<close>

definition covered :: "(thread, 'q) conc \<Rightarrow> bool" where
  "covered s \<longleftrightarrow>
     (\<forall>r\<in>set (rows (store (shared s))).
        (needs_worker r \<longrightarrow> c_id r \<notin> dropped s) \<and>
        (\<forall>wid\<in>stopped s. c_status r = IN_PROGRESS \<and> c_locked_by r = Some wid \<longrightarrow>
           is_stale 30000000 (clock (store (shared s))) r \<and>
           (\<exists>t\<in>set (threads s). c_id r \<in> reclaims t) \<and> (\<forall>t\<in>set (threads s). wid \<notin> acts_for t)))"

text \<open>The stopped workers that still have a task.\<close>

definition missed :: "(thread, 'q) conc \<Rightarrow> string set" where
  "missed s = {wid \<in> stopped s. \<exists>r\<in>set (rows (store (shared s))). dead_row {wid} r}"

lemma covered_recoverable:
  assumes "covered s"
  shows "recoverable (missed s) s"
proof -
  have "acts_for t \<inter> missed s = {}" if "t \<in> set (threads s)" for t
    using assms that unfolding covered_def missed_def dead_row_def by fastforce
  moreover have "is_stale 30000000 (clock (store (shared s))) r \<and> (\<exists>t\<in>set (threads s). c_id r \<in> reclaims t)"
    if "r \<in> set (rows (store (shared s)))" "dead_row (missed s) r" for r
    using assms that unfolding covered_def missed_def dead_row_def by fastforce
  ultimately show ?thesis by (simp add: recoverable_def)
qed

lemma covered_pool_ok:
  assumes "covered s" and "threads.pool_ok we items env c s"
  shows "threads.pool_ok we items env c (s\<lparr>dropped := {}, stopped := missed s\<rparr>)"
proof -
  have "awaits (rows (store (shared s))) \<inter> dropped s = {}"
    using assms(1) by (auto simp: awaits_def covered_def)
  moreover have "running (rows (store (shared s))) \<inter> UNIV \<times> Some ` stopped s \<subseteq> UNIV \<times> Some ` missed s"
    by (force simp: running_def missed_def dead_row_def)
  ultimately show ?thesis using assms(2) unfolding threads.pool_ok_def by auto
qed

end
