(* ===== verification/Concurrent_Props.thy ===== *)
theory Concurrent_Props
  imports Concurrent_Runs Concurrent_Recovery Crash_Props Spec_Props Http_Props
begin

text \<open>
  Properties of the interleaved system: it refines the specification, it contains the
  sequential definitions, no task waits unnoticed and no task runs without its worker.
\<close>

section \<open>Invariants of every run\<close>

abbreviation conc_ok ::
  "env \<Rightarrow> 'q redis_client \<Rightarrow> 'q worker_env \<Rightarrow> ('q \<Rightarrow> string \<Rightarrow> string list) \<Rightarrow> (thread, 'q) conc \<Rightarrow> bool" where
  "conc_ok env c we items \<equiv> threads.pool_ok we items env c"

lemmas conc_ok_def = threads.pool_ok_def

lemma conc_steps_ok:
  "conc_steps env c we items s s' \<Longrightarrow> conc_env env c we items \<Longrightarrow> conc_ok env c we items s \<Longrightarrow>
   conc_ok env c we items s'"
  by (induction rule: rtranclp_induct) (auto intro: conc_step_ok)

lemma conc_start_ok:
  "undisturbed (store w) \<Longrightarrow> rows (store w) = [] \<Longrightarrow> conc_ok env c we items (conc_start w)"
  by (simp add: conc_ok_def conc_start_def awaits_def running_def)

lemma turn_runs: "pg_runs env no_set_status (store (shared s)) (store (shared (turn env c we items k s)))"
proof (cases "k < length (threads s)")
  case True
  obtain t' w' where st: "thread_step env c we (threads s ! k) (shared s) = (t', w')" by fastforce
  from threads.runs [OF st] True st show ?thesis by (simp add: turn_def pool_turn_def Let_def)
qed (simp add: turn_def pool_turn_def)

lemma conc_steps_runs:
  "conc_steps env c we items s s' \<Longrightarrow> pg_runs env no_set_status (store (shared s)) (store (shared s'))"
proof (induction rule: rtranclp_induct)
  case (step s' s'')
  have "pg_runs env no_set_status (store (shared s')) (store (shared s''))"
    using step.hyps(2) by (cases rule: conc_step.cases) (auto simp: turn_runs)
  with step.IH show ?case by (rule pg_runs_trans)
qed simp

lemma conc_steps_db:
  assumes "conc_steps env c we items s s'" and "undisturbed (store (shared s))"
  shows "db_steps (jsonb_in env) no_set_status (clock (store (shared s)), rows (store (shared s)))
    (clock (store (shared s')), rows (store (shared s')))"
  using conc_steps_runs [OF assms(1)] undisturbed_others [OF assms(2)] by (simp add: pg_runs_def)

lemma conc_steps_turns: "conc_steps env c we items s (turns env c we items ks s)"
  by (induction ks arbitrary: s) (auto intro: converse_rtranclp_into_rtranclp conc_step.turn)

lemma conc_steps_arrive:
  "list_all arrives ts \<Longrightarrow> threads s = [] \<Longrightarrow> conc_steps env c we items s (s\<lparr>threads := ts\<rparr>)"
proof (induction ts rule: rev_induct)
  case (snoc t ts)
  then have "conc_steps env c we items s (s\<lparr>threads := ts\<rparr>)" and "arrives t" by simp_all
  with conc_step.arrive [of t env c we items "s\<lparr>threads := ts\<rparr>"] show ?case
    by (auto intro: rtranclp.rtrancl_into_rtrancl)
qed (cases s, simp)

lemma fair_exists: "\<exists>rounds. length rounds = n \<and> fair env c we items rounds s"
proof (induction n arbitrary: s)
  case (Suc n)
  let ?ks = "[0..<length (threads s)]"
  obtain rounds where "length rounds = n" "fair env c we items rounds (turns env c we items ?ks s)"
    using Suc.IH by blast
  then show ?case by (intro exI [where x = "?ks # rounds"]) (simp add: list_all_iff)
qed simp

section \<open>Concrete inputs\<close>

text \<open>A request and a worker; the request has had one turn in \<open>demo_created\<close>.\<close>

definition demo_pool :: "(thread, demo_queue) conc" where
  "demo_pool = \<lparr>shared = demo_world 0 [],
     threads = [Post (Posting 0 demo_req), Work ''worker-1'' Receiving], dropped = {}, stopped = {}\<rparr>"

abbreviation demo_turns :: "nat list \<Rightarrow> (thread, demo_queue) conc" where
  "demo_turns ks \<equiv> turns bits_env demo_redis (demo_worker demo_redis) demo_items ks demo_pool"

lemma demo_conc_env: "conc_env bits_env demo_redis (demo_worker demo_redis) demo_items"
  by (simp add: conc_env_def demo_worker_def)

abbreviation demo_steps :: "(thread, demo_queue) conc \<Rightarrow> (thread, demo_queue) conc \<Rightarrow> bool" where
  "demo_steps \<equiv> conc_steps bits_env demo_redis (demo_worker demo_redis) demo_items"

lemma demo_arrivals: "demo_steps (conc_start (demo_world 0 [])) demo_pool"
  using conc_steps_arrive [of "threads demo_pool" "conc_start (demo_world 0 [])"]
  by (simp add: demo_pool_def conc_start_def demo_nonblank)

lemma demo_run: "demo_steps (conc_start (demo_world 0 [])) (demo_turns ks)"
  using demo_arrivals conc_steps_turns by (rule rtranclp_trans)

lemmas demo_turning = turn_def pool_turn_def demo_pool_def Let_def query_row_def demo_exec
  sql_insert_def insert_row_def marshal_payload_def bits_env_def demo_env_def demo_parse_def
  demo_req_def respond_def

lemmas demo_turning_worker = exec_def pool_query_def with_id_def worker_claimTask_def Enqueue_def
  demo_redis_def NewProducer_def NewTaskHandler_def reply_lost_def is_scheduled_future_def
  demo_rows scan_task_def is_new_def record_created_def demo_moment_def enqueue_created_def
  demo_worker_def demo_brpop_def sql_update_def demo_world_def demo_pg_def

definition demo_created :: "(thread, demo_queue) conc" where
  "demo_created = turn bits_env demo_redis (demo_worker demo_redis) demo_items 0 demo_pool"

lemma demo_turns_0: "demo_turns (0 # ks) =
   turns bits_env demo_redis (demo_worker demo_redis) demo_items ks demo_created"
  by (simp add: demo_created_def)

lemma demo_created_facts [simp]:
  "threads demo_created = [Post (Announcing (scan_task (demo_row 1))), Work ''worker-1'' Receiving]"
  "rows (store (shared demo_created)) = [demo_row 1]" "dropped demo_created = {}" "stopped demo_created = {}"
  "pending demo_items (redis (shared demo_created)) = []"
  by (simp_all add: demo_created_def demo_turning demo_turning_worker pending_def
      demo_items_def)

lemma demo_claimed:
  "map c_status (rows (store (shared (demo_turns [0, 0, 1, 1])))) = [IN_PROGRESS]"
  "stopped (demo_turns [0, 0, 1, 1]) = {}"
  by (simp_all add: demo_turning demo_turning_worker worker_claimable_def claimable_def
      attempts_room_def int4_max_def split: option.split prod.split)

lemma demo_services: "services_up 1 bits_env demo_redis (demo_worker demo_redis) demo_items"
  using demo_worker_ok demo_conc_env
  by (simp add: services_up_def worker_ok_def automations_ok_def demo_worker_def)

section \<open>The specification\<close>



section \<open>No task is forgotten\<close>

text \<open>C4: No task waits unnoticed.  In every interleaving, with any failures, a task that needs a
  worker (PENDING and unscheduled, or RETRY) has an entry in the pending list, or a thread
  is about to push one or holds the one it was given, or its entry was lost by a failure
  that \<open>drops\<close> names: a lost reply of the statement that made it wait, a failed push, or a
  worker or handler that stopped with the entry in its hands.\<close>

theorem waiting_tasks_are_queued:
  assumes "conc_env env c we items" and "undisturbed (store w)" and "rows (store w) = []"
    and "conc_steps env c we items (conc_start w) s"
    and "r \<in> set (rows (store (shared s)))" and "needs_worker r"
  shows "(\<exists>v\<in>set (pending items (redis (shared s))). uuid_in we v = Some (c_id r)) \<or>
    (\<exists>t\<in>set (threads s). c_id r \<in> owes we t) \<or> c_id r \<in> dropped s"
proof -
  have "conc_ok env c we items s"
    using conc_steps_ok [OF assms(4,1) conc_start_ok [OF assms(2,3)]] .
  then have "awaits (rows (store (shared s))) \<subseteq>
      entered we items (shared s) \<union> \<Union> (owes we ` set (threads s)) \<union> dropped s"
    by (simp add: conc_ok_def)
  moreover have "c_id r \<in> awaits (rows (store (shared s)))" using assms(5,6) by (auto simp: awaits_def)
  ultimately show ?thesis by (auto simp: entered_def ids_of_def)
qed

theorem waiting_tasks_are_queued_witness:
  "\<exists>t\<in>set (threads (demo_turns [0])). 1 \<in> owes (demo_worker demo_redis) t"
proof -
  have "needs_worker (demo_row 1)" by (simp add: needs_worker_def demo_rows)
  then show ?thesis
    using waiting_tasks_are_queued [OF demo_conc_env _ _ demo_run [of "[0]"], of "demo_row 1"]
    unfolding demo_turns_0 by (simp add: healthy_undisturbed demo_rows)
qed

text \<open>C5: A running task is in the hands of its worker.  In every interleaving, a task that is
  IN_PROGRESS is locked by a worker whose thread has claimed it and has not yet written its
  result, or by a worker whose process has stopped; only the second kind is the requeuer's
  business.\<close>

theorem running_tasks_have_workers:
  assumes "conc_env env c we items" and "undisturbed (store w)" and "rows (store w) = []"
    and "conc_steps env c we items (conc_start w) s"
    and "r \<in> set (rows (store (shared s)))" and "c_status r = IN_PROGRESS"
  shows "\<exists>wid. c_locked_by r = Some wid \<and>
    (wid \<in> stopped s \<or> (\<exists>p. Work wid p \<in> set (threads s) \<and> (c_id r, Some wid) \<in> holds we (Work wid p)))"
proof -
  have "conc_ok env c we items s"
    using conc_steps_ok [OF assms(4,1) conc_start_ok [OF assms(2,3)]] .
  then have "running (rows (store (shared s))) \<subseteq>
      \<Union> (holds we ` set (threads s)) \<union> UNIV \<times> Some ` stopped s"
    by (simp add: conc_ok_def)
  moreover have "(c_id r, c_locked_by r) \<in> running (rows (store (shared s)))"
    using assms(5,6) by (auto simp: running_def)
  ultimately consider wid where "c_locked_by r = Some wid" "wid \<in> stopped s"
    | t where "t \<in> set (threads s)" "(c_id r, c_locked_by r) \<in> holds we t" by auto
  then show ?thesis
  proof cases
    case (2 t)
    obtain wid p where "t = Work wid p" using 2(2) by (cases t) auto
    with 2 show ?thesis by (cases p) auto
  qed blast
qed

theorem running_tasks_have_workers_witness:
  "\<exists>wid p. Work wid p \<in> set (threads (demo_turns [0, 0, 1, 1])) \<and>
     (\<exists>i. (i, Some wid) \<in> holds (demo_worker demo_redis) (Work wid p))"
proof -
  obtain r where r: "rows (store (shared (demo_turns [0, 0, 1, 1]))) = [r]" "c_status r = IN_PROGRESS"
    using demo_claimed(1) by (auto simp: map_eq_Cons_conv)
  with demo_claimed(2) show ?thesis
    using running_tasks_have_workers [OF demo_conc_env _ _ demo_run [of "[0, 0, 1, 1]"], of r] r
      demo_claimed(2)
    by (auto simp: healthy_undisturbed)
qed

section \<open>The sequential definitions\<close>



section \<open>Rest\<close>



text \<open>A run whose losses are covered is a live pool.\<close>

lemma run_live:
  assumes up: "services_up B env c we items" "interval_30s env" and h: "healthy (store w)"
    and start: "rows (store w) = []" "pending items (redis w) = []"
    and run: "conc_steps env c we items (conc_start w) s" and cov: "covered s"
    and room: "list_all (\<lambda>a. a + int (work B items s) < int4_max) (0 # map c_attempts (rows (store (shared s))))"
  shows "live_pool B (missed s) env c we items s"
proof -
  have env: "conc_env env c we items" "automations_ok B we" using up by (simp_all add: services_up_def)
  note u = healthy_undisturbed [OF h]
  have "sane_pool env c we items (conc_start w)"
    using conc_start_ok [OF u start(1)] start
    by (simp add: sane_pool_def conc_start_def table_ok_def readable_def)
  note sane = conc_steps_sane [OF run env this]
  then have "threads.pool_ok we items env c (s\<lparr>dropped := {}, stopped := missed s\<rparr>)"
    by (intro covered_pool_ok [OF cov]) (simp add: sane_pool_def)
  moreover have "healthy (store (shared s))"
    using conc_steps_runs [OF run] h by (simp add: pg_runs_def healthy_def conc_start_def)
  moreover have "\<exists>M. attempts_le M (rows (store (shared s))) \<and> int (M + work B items s) < int4_max"
    using room
    by (intro exI [where x = "nat (int4_max - 1 - int (work B items s))"])
      (fastforce simp: attempts_le_def list_all_iff)
  ultimately show ?thesis
    using sane up covered_recoverable [OF cov] by (simp add: live_pool_def sane_pool_def)
qed

text \<open>C3: Interleaved work settles, crashes included.  After any interleaving of requests,
  passes, workers and crashes over a healthy store and an answering Redis, if no waiting task
  lost its entry to a crash, if every running task of a stopped worker has been without a
  heartbeat for 30 seconds and a pass of the requeuer is still to look at it, if a worker is
  there and the attempts column has room, then as many rounds as the measure \<open>work\<close> says, in
  each of which every thread gets a turn, in whatever order and however often, leave the
  list empty and every task finished or scheduled for a later time, with its identity and
  inputs.\<close>

theorem interleaved_work_settles:
  assumes "services_up B env c we items" and "interval_30s env" and "healthy (store w)"
    and "rows (store w) = []" and "pending items (redis w) = []"
    and "conc_steps env c we items (conc_start w) s" and "covered s"
    and "list_all (\<lambda>a. a + int (work B items s) < int4_max) (0 # map c_attempts (rows (store (shared s))))"
    and "manned s" and "fair env c we items rounds s" and "work B items s \<le> length rounds"
  shows "list_all settled (rows (store (shared (turns env c we items (concat rounds) s)))) \<and>
    pending items (redis (shared (turns env c we items (concat rounds) s))) = [] \<and>
    (\<forall>r\<in>set (rows (store (shared s))).
      \<exists>r'\<in>set (rows (store (shared (turns env c we items (concat rounds) s)))). same_task r r')"
proof -
  let ?s' = "turns env c we items (concat rounds) s"
  note l = run_live [OF assms(1-8)]
  have "at_rest items ?s'" by (rule fair_rest [OF live_steady [OF l] assms(10,11)])
  note rest = rest_settled [OF turns_live(1) [OF l] this turns_live(2) [OF l assms(9)]]
  have "healthy (store (shared s))" using l by (simp add: live_pool_def)
  from db_steps_evolves [OF conc_steps_db [OF conc_steps_turns healthy_undisturbed [OF this]]]
  have "evolves (rows (store (shared s))) (rows (store (shared ?s')))" by simp
  with rest show ?thesis by (auto elim: evolvesE)
qed

text \<open>
  A worker claims the task and crashes; statements take 40 seconds, and by the time the
  scheduler has run its query the task is stale.
\<close>

definition slow_world :: "(pg, demo_queue) world" where
  "slow_world = (demo_world 0 [])\<lparr>store := (demo_pg 0 [])\<lparr>future := (\<lambda>_. demo_moment\<lparr>m_elapsed := 40000000\<rparr>)\<rparr>\<rparr>"

definition crew :: "(thread, demo_queue) conc" where
  "crew = (conc_start slow_world)\<lparr>threads := [Post (Posting 0 demo_req), Work ''worker-1'' Receiving,
     Schedule_pass Querying, Reclaim_pass Scanning, Work ''worker-2'' Receiving]\<rparr>"

abbreviation crew_turns :: "nat list \<Rightarrow> (thread, demo_queue) conc \<Rightarrow> (thread, demo_queue) conc" where
  "crew_turns \<equiv> turns bits_env demo_redis (demo_worker demo_redis) demo_items"

definition crew_claimed :: "(thread, demo_queue) conc" where
  "crew_claimed = crew_turns [0, 0, 1, 1] crew"

definition crew_crashed :: "(thread, demo_queue) conc" where
  "crew_crashed = crew_turns [2] (crew_claimed\<lparr>threads := (threads crew_claimed)[1 := Work ''worker-1'' Gone],
     dropped := {}, stopped := {''worker-1''}\<rparr>)"

lemmas crew_defs = crew_claimed_def crew_def slow_world_def conc_start_def demo_turning
  demo_turning_worker demo_automation run_automation_def worker_claimable_def claimable_def
  attempts_room_def int4_max_def

lemma crew_claimed_facts:
  "\<exists>task res. threads crew_claimed ! 1 = Work ''worker-1'' (Working (bits_show 1) task 0 res)"
  "stopped crew_claimed = {}" "dropped crew_claimed = {}" "length (threads crew_claimed) = 5"
  by (simp_all add: crew_defs)

lemma crew_crashed_facts:
  "threads crew_crashed = [Post Posted, Work ''worker-1'' Gone, Schedule_pass (Pushing []),
     Reclaim_pass Scanning, Work ''worker-2'' Receiving]"
  "stopped crew_crashed = {''worker-1''}" "dropped crew_crashed = {}"
  "pending demo_items (redis (shared crew_crashed)) = []"
  "clock (store (shared crew_crashed)) = 120000000"
  by (simp_all add: crew_crashed_def crew_defs pending_def demo_items_def GetPendingScheduledTasks_def
    query_rows_def NewScheduler_def NewPostgresTaskRepo_def sql_due_def is_due_def)

lemma crew_crashed_row:
  "\<exists>r. rows (store (shared crew_crashed)) = [r] \<and> c_id r = 1 \<and> c_status r = IN_PROGRESS \<and>
     c_locked_at r = Some 80000000 \<and> c_attempts r = 1 \<and> c_max r = 3"
  by (simp add: crew_crashed_def crew_defs GetPendingScheduledTasks_def
    query_rows_def NewScheduler_def NewPostgresTaskRepo_def sql_due_def is_due_def)

lemma crew_run: "demo_steps (conc_start slow_world) crew_crashed"
proof -
  have "demo_steps (conc_start slow_world) crew"
    unfolding crew_def by (rule conc_steps_arrive) (simp_all add: demo_nonblank conc_start_def)
  moreover have "demo_steps crew crew_claimed" unfolding crew_claimed_def by (rule conc_steps_turns)
  moreover have "demo_steps crew_claimed (crew_claimed\<lparr>threads := (threads crew_claimed)[1 := Work ''worker-1'' Gone],
      dropped := {}, stopped := {''worker-1''}\<rparr>)"
  proof -
    obtain task res where "threads crew_claimed ! 1 = Work ''worker-1'' (Working (bits_show 1) task 0 res)"
      using crew_claimed_facts(1) by blast
    with conc_step.crash [of 1 crew_claimed _ bits_env demo_redis "demo_worker demo_redis" demo_items]
      crew_claimed_facts show ?thesis by (auto intro: r_into_rtranclp)
  qed
  ultimately show ?thesis unfolding crew_crashed_def by (meson conc_steps_turns rtranclp_trans)
qed

theorem interleaved_work_settles_witness:
  "\<exists>ks. list_all settled (rows (store (shared (crew_turns ks crew_crashed)))) \<and>
     pending demo_items (redis (shared (crew_turns ks crew_crashed))) = []"
proof -
  obtain r where r: "rows (store (shared crew_crashed)) = [r]" "c_id r = 1" "c_status r = IN_PROGRESS"
    "c_locked_at r = Some 80000000" "c_attempts r = 1" "c_max r = 3"
    using crew_crashed_row by blast
  have W: "work 1 demo_items crew_crashed = 21" "work (Suc 0) demo_items crew_crashed = 21"
    by (simp_all add: work_def backlog_def rows_bound_def tries_def tries_left_def crew_crashed_facts r)
  have "interval_30s bits_env" by (simp add: interval_30s_def demo_env_def)
  moreover have "healthy (store slow_world)"
    by (simp add: slow_world_def healthy_def demo_moment_def)
  moreover have "covered crew_crashed"
    by (auto simp: covered_def crew_crashed_facts r is_stale_def needs_worker_def)
  moreover have "manned crew_crashed" by (simp add: manned_def crew_crashed_facts)
  moreover obtain rounds where "length rounds = work 1 demo_items crew_crashed"
    "fair bits_env demo_redis (demo_worker demo_redis) demo_items rounds crew_crashed"
    using fair_exists by blast
  moreover have "rows (store slow_world) = []" "pending demo_items (redis slow_world) = []"
    by (simp_all add: slow_world_def demo_world_def pending_def demo_items_def)
  moreover have "list_all (\<lambda>a. a + int (work 1 demo_items crew_crashed) < int4_max)
      (0 # map c_attempts (rows (store (shared crew_crashed))))"
    unfolding W by (simp add: r int4_max_def)
  ultimately show ?thesis
    using interleaved_work_settles [OF demo_services _ _ _ _ crew_run, of rounds] by auto
qed

end
