(* ===== verification/Worker_Start.thy ===== *)
theory Worker_Start
  imports Worker_Props
begin

text \<open>
  The worker process around its loop: \<^verbatim>\<open>start\<close> of \<^verbatim>\<open>worker/src/worker.js\<close> (connecting to
  Redis, the loop, closing the connections) and \<^verbatim>\<open>worker/src/index.js\<close> (the exit code).
\<close>

section \<open>Start-up\<close>

text \<open>
  What the process uses of ioredis and node-postgres besides the commands: \<open>connect\<close> and
  \<open>quit\<close> of the Redis client, and the end of the Postgres pool; \<open>Some\<close> is a rejection.
\<close>

record 'q worker_io =
  connect :: "'q \<Rightarrow> string option \<times> 'q"
  quit :: "'q \<Rightarrow> string option \<times> 'q"
  pool_end :: "pg \<Rightarrow> string option"

text \<open>The attempts from number \<open>attempt\<close> on, with the milliseconds waited between them.\<close>

function connect_from ::
  "('q \<Rightarrow> string option \<times> 'q) \<Rightarrow> nat \<Rightarrow> nat \<Rightarrow> 'q \<Rightarrow> unit result \<times> nat \<times> 'q" where
  "connect_from conn attempt waited q =
     (if attempt \<le> 10
      then (case conn q of
          (None, q') \<Rightarrow> (Inr (), waited, q')
        | (Some txt, q') \<Rightarrow>
            (if attempt = 10 then (Inl (ErrorString txt), waited, q')
             else connect_from conn (attempt + 1) (waited + 2000) q'))
      else (Inr (), waited, q))"
  by pat_completeness auto

termination by (relation "measure (\<lambda>(conn, attempt, waited, q). 11 - attempt)") auto

declare connect_from.simps [simp del]

text \<open>\<^verbatim>\<open>start\<close>, with the rounds \<open>n\<close> the loop makes before the shutdown is requested.\<close>

definition worker_start ::
  "env \<Rightarrow> 'q worker_env \<Rightarrow> 'q worker_io \<Rightarrow> string \<Rightarrow> nat \<Rightarrow> (pg, 'q) world \<Rightarrow>
   unit result \<times> (pg, 'q) world" where
  "worker_start env we io wid n w =
     (case connect_from (connect io) 1 0 (redis w) of
        (Inl e, waited, q) \<Rightarrow> (Inl e, w\<lparr>redis := q\<rparr>)
      | (Inr u, waited, q) \<Rightarrow>
         (case worker_loop env we wid n (w\<lparr>redis := q\<rparr>) of
            (Inl e, w') \<Rightarrow> (Inl e, w')
          | (Inr u, w') \<Rightarrow>
             (case quit io (redis w') of
                (Some txt, q') \<Rightarrow> (Inl (ErrorString txt), w'\<lparr>redis := q'\<rparr>)
              | (None, q') \<Rightarrow>
                 (case pool_end io (store w') of
                    Some txt \<Rightarrow> (Inl (ErrorString txt), w'\<lparr>redis := q'\<rparr>)
                  | None \<Rightarrow> (Inr (), w'\<lparr>redis := q'\<rparr>)))))"

text \<open>The exit code: 1 for a rejection that \<^verbatim>\<open>start\<close> lets through, 0 when it returns.\<close>

definition worker_process ::
  "env \<Rightarrow> 'q worker_env \<Rightarrow> 'q worker_io \<Rightarrow> string \<Rightarrow> nat \<Rightarrow> (pg, 'q) world \<Rightarrow>
   nat \<times> (pg, 'q) world" where
  "worker_process env we io wid n w =
     (case worker_start env we io wid n w of (Inl e, w') \<Rightarrow> (1, w') | (Inr u, w') \<Rightarrow> (0, w'))"

section \<open>Ten attempts\<close>

primrec retried :: "('q \<Rightarrow> string option \<times> 'q) \<Rightarrow> nat \<Rightarrow> 'q \<Rightarrow> 'q" where
  "retried conn 0 q = q"
| "retried conn (Suc j) q = retried conn j (snd (conn q))"

lemma retried_last: "retried conn (Suc j) q = snd (conn (retried conn j q))"
  by (induction j arbitrary: q) simp_all

lemma connect_from_fails:
  "(\<And>i. i < j \<Longrightarrow> fst (conn (retried conn i q)) \<noteq> None) \<Longrightarrow> attempt + j \<le> 10 \<Longrightarrow>
   connect_from conn attempt waited q = connect_from conn (attempt + j) (waited + 2000 * j) (retried conn j q)"
proof (induction j arbitrary: attempt waited q)
  case (Suc j)
  obtain msg q' where c: "conn q = (Some msg, q')"
    using Suc.prems(1) [of 0] by (cases "conn q") auto
  have "fst (conn (retried conn i q')) \<noteq> None" if "i < j" for i
    using Suc.prems(1) [of "Suc i"] that c by simp
  from Suc.IH [OF this, of "attempt + 1" "waited + 2000"] Suc.prems(2) c show ?case
    by (simp add: connect_from.simps [of conn attempt] add.assoc)
qed simp

lemma connect_succeeds:
  assumes "\<And>i. i < k \<Longrightarrow> fst (conn (retried conn i q)) \<noteq> None" and "k < 10"
    and "conn (retried conn k q) = (None, q')"
  shows "connect_from conn 1 0 q = (Inr (), 2000 * k, q')"
  using connect_from_fails [of k conn q 1 0] assms by (simp add: connect_from.simps [of _ "Suc k"])

lemma connect_gives_up:
  assumes "\<And>i. i < 10 \<Longrightarrow> fst (conn (retried conn i q)) \<noteq> None"
  shows "\<exists>txt. connect_from conn 1 0 q = (Inl (ErrorString txt), 18000, retried conn 10 q)"
proof -
  obtain msg q' where c: "conn (retried conn 9 q) = (Some msg, q')"
    using assms [of 9] by (cases "conn (retried conn 9 q)") auto
  have "retried conn 10 q = q'"
    using c retried_last [of conn 9 q] by simp
  with c connect_from_fails [of 9 conn q 1 0] assms show ?thesis
    by (simp add: connect_from.simps [of _ 10])
qed

section \<open>The process\<close>

text \<open>Connecting leaves the pending list alone; closing works.\<close>

definition connect_keeps :: "'q worker_io \<Rightarrow> ('q \<Rightarrow> string \<Rightarrow> string list) \<Rightarrow> bool" where
  "connect_keeps io items \<longleftrightarrow> (\<forall>q. pending items (snd (connect io q)) = pending items q)"

definition closes :: "'q worker_io \<Rightarrow> bool" where
  "closes io \<longleftrightarrow> (\<forall>q. fst (quit io q) = None) \<and> (\<forall>s. pool_end io s = None)"

lemma retried_pending:
  "connect_keeps io items \<Longrightarrow> pending items (retried (connect io) j q) = pending items q"
  by (induction j arbitrary: q) (simp_all add: connect_keeps_def)

lemma live_redis:
  assumes "pending items q = pending items (redis w)"
  shows "live env items (w\<lparr>redis := q\<rparr>) = live env items w"
    and "potential items (w\<lparr>redis := q\<rparr>) = potential items w"
  using assms by (simp_all add: live_def potential_def)


text \<open>A client whose first attempt is rejected.\<close>

definition demo_io :: "demo_queue worker_io" where
  "demo_io = \<lparr>connect = (\<lambda>q. if q ''attempts'' = [] then (Some ''ECONNREFUSED'', q(''attempts'' := [''1'']))
       else (None, q)),
     quit = (\<lambda>q. (None, q)), pool_end = (\<lambda>s. None)\<rparr>"


end
