(* ===== verification/Spec2Isabelle.thy ===== *)
theory Spec2Isabelle
  imports System Spec_Props Type_Props Crash_Props Process_Props Concurrent_Props Worker_Start
begin

text \<open>
  A verification library for trial-terminator: the Go API server under \<^verbatim>\<open>cmd/\<close> and
  \<^verbatim>\<open>internal/\<close>, its tasks table under \<^verbatim>\<open>migrations/\<close>, and of the Node worker the statements it
  runs on the same table (\<^verbatim>\<open>worker/src/db.js\<close>), its process, its loop and the processing of
  a task (\<^verbatim>\<open>worker/src/index.js\<close>, \<^verbatim>\<open>worker/src/worker.js\<close>), without the browser automation.

  The program.  Clients post cancellation tasks; the server stores a task once per
  idempotency key in Postgres and pushes its id onto a Redis list.  Workers pop ids, claim
  the row (PENDING to IN_PROGRESS), heartbeat, and write a result fenced on the lock owner.
  Two background loops of the server repair and schedule: the requeuer takes back tasks
  whose heartbeat is older than 30 seconds and pushes them again, the scheduler pushes
  tasks whose time has come.  Postgres is the source of truth, Redis only notifies.

  \<^bold>\<open>Theories, in import order\<close>

  \<^item> \<^verbatim>\<open>Prelude\<close>: UUIDs as \<open>128 word\<close>, instants in microseconds, Go errors with wrapping,
    shared list lemmas.  \<^verbatim>\<open>Models\<close>: \<^verbatim>\<open>internal/models/task.go\<close>.
  \<^item> \<^verbatim>\<open>Tasks_Table\<close>: the enum, columns, defaults, constraints and trigger of the migrations,
    and every SQL statement of \<^verbatim>\<open>internal/repository/task_repo.go\<close> as a function of the time
    and the rows (\<open>sql_insert\<close>, \<open>sql_claim\<close>, \<open>sql_requeue\<close>, ...).  \<^verbatim>\<open>Worker_Db\<close>: the worker's.
  \<^item> \<^verbatim>\<open>Table_Steps\<close>, \<^verbatim>\<open>Table_Invariants\<close>, \<^verbatim>\<open>Lifecycle\<close>: the table as a state machine
    (\<open>db_step\<close>: one statement, or time passing), what one statement can do to one row
    (\<open>row_update\<close>), the invariant \<open>table_ok\<close>, the identity kept by every step (\<open>same_task\<close>),
    the status edges, terminal rows, claims and the fence.
  \<^item> \<^verbatim>\<open>Task_Spec\<close>: the abstract specification of the task service (submit, take, hand back,
    reclaim, complete), what its histories guarantee (\<open>sound\<close>: one holder at a time, one
    completion, by the holder), the locale \<open>simulation\<close>, and its interpretation on the
    tasks table (\<open>spec_of\<close>, \<open>event_of\<close>).
  \<^item> \<^verbatim>\<open>Go_Text\<close>: \<^verbatim>\<open>strconv.Itoa\<close>, \<^verbatim>\<open>time.Duration.String\<close>, \<^verbatim>\<open>strings.TrimSpace\<close> and
    \<^verbatim>\<open>strings.Join\<close>.  \<^verbatim>\<open>Go_Path\<close>: \<^verbatim>\<open>filepath.Clean\<close> and \<^verbatim>\<open>filepath.Join\<close>.
  \<^item> \<^verbatim>\<open>Repository\<close>: the methods of \<open>PostgresTaskRepo\<close>.  A statement runs at a \<open>moment\<close> of
    the store \<open>pg\<close>: what the other processes did since the last one, the time that passed,
    a driver fault (rejected, not executed, executed with a lost reply), a broken row
    stream, the generated UUID and the heap order of rows.  The methods thus face every
    interleaving and failure; \<open>healthy\<close> (in \<^verbatim>\<open>Recovery\<close>) names the runs without any.
    \<^verbatim>\<open>Repository_Laws\<close>: every method is a run of the table's state machine (\<open>pg_runs\<close>), the
    contract of the interface as the locale \<open>task_repository\<close>, interpreted on Postgres.
  \<^item> \<^verbatim>\<open>World\<close>, \<^verbatim>\<open>Queue\<close>, \<^verbatim>\<open>Queue_Laws\<close>, \<^verbatim>\<open>Recovery\<close>: the state of the process (store, Redis,
    metrics, log), \<^verbatim>\<open>internal/queue\<close>, its laws proved inside the repository's contract, the
    exact effect of a pass, when a crash is found, and which tasks no pass finds.
  \<^item> \<^verbatim>\<open>Worker\<close>: \<open>worker_loop\<close>, \<open>processTask\<close>, \<open>handle_result\<close>, the heartbeats and
    \<open>getAutomation\<close>, a rejected promise being an error value; every run of a worker is a
    run of the table's state machine.  \<^verbatim>\<open>Worker_Liveness\<close>: what one processing makes of a
    task (\<open>processed\<close>), and that the loop settles everything that is queued: a round on a
    queue that is not empty lowers \<open>potential\<close>, the entries plus the attempts left; the bound
    holds for several workers that take turns (\<open>fleet_run\<close>).  \<^verbatim>\<open>Worker_Start\<close>: \<^verbatim>\<open>start\<close> with its
    connection attempts, and the exit code of \<^verbatim>\<open>index.js\<close>.
  \<^item> \<^verbatim>\<open>Task_Json\<close>, \<^verbatim>\<open>Http\<close>, \<^verbatim>\<open>Handlers\<close>: the JSON of a task, response writer and metrics
    middleware (locale \<open>http_handler\<close>, interpreted on the three handlers), and
    \<^verbatim>\<open>internal/handlers/task_handler.go\<close>.
  \<^item> \<^verbatim>\<open>Db_Pool\<close>, \<^verbatim>\<open>Server\<close>: \<^verbatim>\<open>internal/db\<close>, \<^verbatim>\<open>internal/server\<close>, \<^verbatim>\<open>cmd/api/main.go\<close>.
    \<^verbatim>\<open>Process\<close>: the process as interleaved goroutines (\<open>process_step\<close>): \<^verbatim>\<open>main\<close>, the listener,
    the requests in flight and the two loops started by \<^verbatim>\<open>Start\<close>.
  \<^item> \<^verbatim>\<open>Concurrent\<close>: the running system as interleaved threads.  A creation (\<open>post_step\<close>), a pass
    of the requeuer (\<open>requeuer_step\<close>) and of the scheduler (\<open>scheduler_step\<close>), a worker
    (\<open>worker_step\<close>) and each of its heartbeats are threads over one store and one Redis; a
    turn (\<open>turn\<close>) is one statement or command and the code up to the next.  \<open>conc_step\<close>: a
    turn, an arrival, a shutdown, or a crash of any thread at any point.
    \<^verbatim>\<open>Concurrent_Contract\<close>: the locale \<open>thread_contract\<close>, what a kind of thread must keep so that
    no waiting task is forgotten and no task runs without its worker, and the invariant of
    every pool of such threads.  \<^verbatim>\<open>Concurrent_Actions\<close>: the statements of each kind of thread.
    \<^verbatim>\<open>Concurrent_Threads\<close>: the interpretations of the contract, one per kind of thread and one
    for their sum.  \<^verbatim>\<open>Concurrent_Runs\<close>: the sequential definitions are runs of one thread
    alone.  \<^verbatim>\<open>Concurrent_Liveness\<close>, \<^verbatim>\<open>Concurrent_Fairness\<close>: every turn that does something
    lowers \<open>work\<close>, and fair rounds reach the rest.  \<^verbatim>\<open>Concurrent_Recovery\<close>: tasks of stopped
    workers stay with the pass that takes them back (\<open>recoverable\<close>), and at rest every task is
    settled.
  \<^item> \<^verbatim>\<open>Demo\<close>: concrete inputs.  \<^verbatim>\<open>Table_Props\<close>, \<^verbatim>\<open>Repo_Props\<close>, \<^verbatim>\<open>Life_Props\<close>, \<^verbatim>\<open>Queue_Props\<close>,
    \<^verbatim>\<open>Http_Props\<close>, \<^verbatim>\<open>Server_Props\<close>, \<^verbatim>\<open>Spec_Props\<close>, \<^verbatim>\<open>Type_Props\<close>, \<^verbatim>\<open>Worker_Props\<close>,
    \<^verbatim>\<open>Crash_Props\<close>, \<^verbatim>\<open>Process_Props\<close>, \<^verbatim>\<open>Concurrent_Props\<close>: the numbered properties by component,
    each with an application at a concrete input, and the facts beside them.  \<^verbatim>\<open>System\<close> and this theory: the assembled
    server and its workers as a step relation (\<open>system_step\<close>), and the properties that span
    the components.

  \<^bold>\<open>What the properties show\<close>

  The table stays sound and loses no task under any interleaving and failure, and refines
  the specification: what the system did to the tasks is a history in which each is held by
  one worker at a time and completed at most once.  Over a healthy store and an answering
  Redis a posted task is finished, or rescheduled by its automation, after a number of
  rounds of the worker that is known beforehand, and tasks of crashed workers are after one
  pass of the requeuer.  The same holds when all of them run at once: in every interleaving of
  statements and commands, with crashes at any point, a task that waits has an entry, a
  thread that owes it one, or a named failure that lost it; a task that runs has its worker
  or a stopped one; no schedule keeps the threads busy beyond a bound; and fair turns settle
  every task, those of crashed workers included once a pass of the requeuer sees them stale.  A claim is exclusive and a worker that lost its lock is
  fenced off; creation is idempotent and cannot fail by a race; the requeuer finds a crash within 40 seconds, releases and pushes
  exactly the stale tasks and re-checks each; the scans, the claim, the answers, routes,
  headers and metrics are exactly characterised.  Some properties state what the code does
  against its comments: a lost push is never repaired (after a creation, a requeue or a failed
  attempt), the shutdown does not wait for the loops, an untouched task is \<open>new\<close> on every
  replay, attempts are not bounded by \<open>max_attempts\<close>, the gauge never goes down, FAILED is
  never written, the worker's claim ignores \<open>scheduled_for\<close>.

  \<^bold>\<open>Parameters and their laws\<close>

  Code outside the repository is an argument: the record \<open>env\<close> (\<^verbatim>\<open>uuid.Parse\<close>,
  \<^verbatim>\<open>uuid.UUID.String\<close>, JSON coding of request bodies and payloads, the server's JSONB and
  INTERVAL input), Redis's LPUSH (\<open>lpush_law\<close>: the value is added at the head, other keys
  are untouched, after an error it may or may not have been added) and BRPOP (\<open>brpop_law\<close>:
  the value at the tail is taken), pgxpool, go-redis, the metrics page, and the operating
  system; the record \<open>worker_env\<close> of a worker holds its two Redis commands, the server's
  UUID input and the universal automation (any result, exception or duration).  Laws are hypotheses where they are used:
  \<open>interval_30s\<close> (Postgres reads \<^verbatim>\<open>30s\<close> as 30 seconds), \<open>uuid_parse_law\<close> (the spellings
  \<^verbatim>\<open>uuid.Parse\<close> documents), \<open>unique_text\<close> (no other UUID prints as this one), \<open>prom_reads\<close>
  and \<open>keeps_origin\<close> (the metrics page changes nothing and keeps headers), \<open>redis_up\<close> and
  \<open>brpop_up\<close> (the command answers), \<open>worker_ok\<close> (these, UUIDs that read back, a worker name
  that fits its column, automation texts without NUL).

  \<^bold>\<open>Bounds and what is left out\<close>

  The server's loops run over the lists they are given.  The worker's loop takes the number
  of its rounds before a shutdown; \<open>potential\<close> rounds, of one worker or of several
  (\<open>fleet_run\<close>), are enough to settle everything, and the theorems hold for every larger
  number.  VARCHAR(255) counts
  characters and \<open>attempts\<close> is a 4-byte integer, as in the schema.  A statement has one
  instant for \<^verbatim>\<open>NOW()\<close> and its effect (a transaction that waits for a row lock with an
  older \<^verbatim>\<open>NOW()\<close> is not modelled), and statements of different processes are serialised.
  In \<open>worker_loop\<close> heartbeats run between the claim and the result of a task, as many as the
  automation's run lasts; in the interleaving each is a thread of its own that may still be on
  its way when the result is written.

  The measure \<open>work B items s\<close> of the interleaving counts, for automations that fire at most
  \<open>B\<close> heartbeats, the entries (\<open>3 + 2 B\<close> each), the attempts left in the table (\<open>4 + 2 B\<close>
  each) and what the threads have in hand (\<open>weight\<close>; a pass that begins counts all rows it
  may find).  As many fair rounds are enough, and a schedule has no more turns that do
  something (\<open>busy_bounded\<close>).  Liveness asks that earlier losses are \<open>covered\<close>: no task waits
  whose entry was lost (\<open>dropped\<close>), and every task of a stopped worker (\<open>stopped\<close>) is stale
  and a pass is to come.
  Not modelled: log attributes, errors of the JSON encoder and of response writes, panics,
  path cleaning and redirects of \<^verbatim>\<open>ServeMux\<close>, the measured seconds of the histogram, TLS and
  timeouts (a forced shutdown is a free choice of \<open>process_step\<close>, and closing the pool does
  not wait); the worker's configuration and console, the browser automation, the frontend,
  the test services and the deployment files.

  Left for later: the routes and the shutdown of the server inside the interleaving (its
  requests arrive validated, its ticks at any time; \<open>system_step\<close> has the routes and
  \<open>process_step\<close> the shutdown).
\<close>

section \<open>Properties of the whole server\<close>

definition demo_prom :: "(pg, demo_queue) handler" where
  "demo_prom r st = st"

lemma demo_prom_reads: "prom_reads demo_prom"
  by (simp add: prom_reads_def demo_prom_def)

lemma demo_server_run:
  "(system_step demo_env demo_os demo_redis demo_prom)\<^sup>*\<^sup>* (demo_world 5 [demo_row 1])
     (Requeuer_runOnce demo_env (requeuer (New demo_env demo_os demo_redis demo_prom))
       (demo_world 5 [demo_row 1]))"
  by (rule r_into_rtranclp) (rule system_step.requeue_tick)

lemma demo_others: "others_satisfy A (demo_pg t rs)"
  by (simp add: others_satisfy_def)

text \<open>C1: The whole system is safe for the table.  Whatever requests the server gets, however
  its two background loops tick and whatever its workers run, with any driver and Redis
  failures and any interference between the statements, a sound table stays sound, every
  task keeps its identity, inputs and age, and a finished task is never changed.\<close>

theorem server_keeps_table:
  assumes "(system_step env sys c prom)\<^sup>*\<^sup>* g g'" and "prom_reads prom"
    and "others_satisfy no_set_status (store g)" and "table_ok (clock (store g)) (rows (store g))"
  shows "table_ok (clock (store g')) (rows (store g')) \<and>
    (\<forall>r\<in>set (rows (store g)). \<exists>r'\<in>set (rows (store g')). same_task r r') \<and>
    (\<forall>r\<in>set (rows (store g)). terminal r \<longrightarrow> r \<in> set (rows (store g')))"
proof (intro conjI ballI impI)
  have "pg_runs env no_set_status (store g) (store g')"
    using system_steps_ok [OF assms(1,2)] by (simp add: request_ok_def)
  note steps = pg_runs_weaken [OF this assms(3)]
  show "table_ok (clock (store g')) (rows (store g'))"
    using db_steps_table_ok [OF steps] assms(4) by simp
  show "\<exists>r'\<in>set (rows (store g')). same_task r r'" if "r \<in> set (rows (store g))" for r
    using db_steps_evolves [OF steps] that by (auto elim: evolvesE)
  show "r \<in> set (rows (store g'))" if "r \<in> set (rows (store g))" "terminal r" for r
    using db_steps_keep_terminal [OF steps assms(4) that] .
qed

theorem server_keeps_table_witness:
  "table_ok (clock (store (Requeuer_runOnce demo_env (requeuer (New demo_env demo_os demo_redis demo_prom))
       (demo_world 5 [demo_row 1]))))
     (rows (store (Requeuer_runOnce demo_env (requeuer (New demo_env demo_os demo_redis demo_prom))
       (demo_world 5 [demo_row 1]))))"
proof -
  have "table_ok 5 [demo_row 1]" by (simp add: table_ok_def row_ok_def demo_rows int4_max_def)
  then show ?thesis
    using server_keeps_table [OF demo_server_run demo_prom_reads] demo_others by simp
qed



text \<open>C7: An accepted task is never lost.  If \<^verbatim>\<open>POST /tasks\<close> answers 200 or 201, its body is
  the JSON of a row that is stored at that moment, and after any further steps of the
  server and its environment a row with the same id, key, service, email, payload and
  creation time is still stored.\<close>

theorem accepted_task_never_lost:
  assumes "Handler_CreateTask env (NewTaskHandler (NewPostgresTaskRepo env) (NewProducer c)) now r
      (new_writer, g) = (w', g')"
    and "final_status w' = 200 \<or> final_status w' = 201"
    and "(system_step env sys c prom)\<^sup>*\<^sup>* g' g''" and "prom_reads prom"
    and "others_satisfy no_set_status (store g')"
  shows "\<exists>x\<in>set (rows (store g')). w_body w' = [JsonChunk (Task_json (uuid_String env) (scan_task x))] \<and>
    (\<exists>y\<in>set (rows (store g'')). same_task x y)"
proof -
  obtain x where x: "x \<in> set (rows (store g'))"
    "w_body w' = [JsonChunk (Task_json (uuid_String env) (scan_task x))]"
    using create_answer_stored [OF assms(1,2)] by blast
  have "pg_runs env no_set_status (store g') (store g'')"
    using system_steps_ok [OF assms(3,4)] by (simp add: request_ok_def)
  from db_steps_evolves [OF pg_runs_weaken [OF this assms(5)]] x(1)
  have "\<exists>y\<in>set (rows (store g'')). same_task x y" by (auto elim: evolvesE)
  with x show ?thesis by blast
qed

theorem accepted_task_never_lost_witness:
  "let (w', g') = Handler_CreateTask demo_env
         (NewTaskHandler (NewPostgresTaskRepo demo_env) (NewProducer demo_redis)) 0 demo_post
         (new_writer, demo_world 0 []);
       g'' = Requeuer_runOnce demo_env (requeuer (New demo_env demo_os demo_redis demo_prom)) g'
   in \<exists>x\<in>set (rows (store g')).
     w_body w' = [JsonChunk (Task_json (uuid_String demo_env) (scan_task x))] \<and>
     (\<exists>y\<in>set (rows (store g'')). same_task x y)"
proof -
  let ?p = "Handler_CreateTask demo_env
      (NewTaskHandler (NewPostgresTaskRepo demo_env) (NewProducer demo_redis)) 0 demo_post
      (new_writer, demo_world 0 [])"
  have ct: "final_status (fst ?p) = 201 \<and> store (snd ?p) = (demo_pg 0 [demo_row 1])\<lparr>calls := 1\<rparr>"
    by (simp add: Handler_CreateTask_def demo_decode demo_nonblank NewTaskHandler_def
        NewPostgresTaskRepo_def demo_create Let_def is_new_def scan_task_def demo_row_def
        default_row_def is_scheduled_future_def writeJSON_def writer_defs final_status_def
        new_writer_def)
  have others: "others_satisfy no_set_status (store (snd ?p))"
    unfolding conjunct2 [OF ct] by (simp add: others_satisfy_def)
  have status: "final_status (fst ?p) = 200 \<or> final_status (fst ?p) = 201" using ct by blast
  show ?thesis
    unfolding Let_def case_prod_beta
    by (rule accepted_task_never_lost [OF prod.collapse [symmetric] status _ demo_prom_reads others])
      (rule r_into_rtranclp, rule system_step.requeue_tick)
qed

text \<open>C39: The metrics of completed and running tasks do not say what their names say.  No
  step of the server ever increments \<open>TasksCompletedTotal\<close> or decrements the gauge
  \<open>TasksInProgress\<close>: it counts the creations and replays answered 201 since the start.\<close>

theorem gauge_never_goes_down:
  assumes "(system_step env sys c prom)\<^sup>*\<^sup>* g g'" and "prom_reads prom"
  shows "TasksInProgress (meters g) \<le> TasksInProgress (meters g') \<and>
    TasksCompletedTotal (meters g') = TasksCompletedTotal (meters g)"
  using system_steps_ok [OF assms] by (simp add: request_ok_def meters_up_def)

theorem gauge_never_goes_down_witness:
  "TasksInProgress (meters (demo_world 5 [demo_row 1])) \<le>
     TasksInProgress (meters (Requeuer_runOnce demo_env
       (requeuer (New demo_env demo_os demo_redis demo_prom)) (demo_world 5 [demo_row 1])))"
  using gauge_never_goes_down [OF demo_server_run demo_prom_reads] by blast

end
